theory Spec2Isabelle
  imports Main "HOL-Library.Word" "HOL-Library.Signed_Division"
begin

unbundle bit_operations_syntax

section \<open>Machine integers of the Go source\<close>

text \<open>
  Go's \<open>int\<close> is taken at 64 bits (the amd64 and arm64 targets of the repository); \<open>int64\<close>,
  \<open>uint64\<close> and \<open>uint\<close> share the same 64-bit carrier, so the conversions between them are
  the identity on the bits. Addition, subtraction and multiplication wrap around; \<open>/\<close> and
  \<open>%\<close> on signed operands truncate towards zero; the signed comparisons read the word in
  two's complement. Every divisor in the source is a non-zero constant, so the run-time
  panic of a division by zero does not arise and is not modelled.
\<close>

type_synonym go_int = "64 word"

definition go_div :: "go_int \<Rightarrow> go_int \<Rightarrow> go_int" where
  "go_div a b = word_of_int (sint a sdiv sint b)"

definition go_mod :: "go_int \<Rightarrow> go_int \<Rightarrow> go_int" where
  "go_mod a b = word_of_int (sint a smod sint b)"

section \<open>The calendar value \<open>mysqlTime\<close> and its accessors\<close>

record mysqlTime =
  year :: "16 word"
  month :: "8 word"
  day :: "8 word"
  hour :: "8 word"
  minute :: "8 word"
  second :: "8 word"
  microsecond :: "32 word"

definition mysqlTime_Year :: "mysqlTime \<Rightarrow> go_int" where
  "mysqlTime_Year t = ucast (year t)"

definition mysqlTime_Month :: "mysqlTime \<Rightarrow> go_int" where
  "mysqlTime_Month t = ucast (month t)"

definition mysqlTime_Day :: "mysqlTime \<Rightarrow> go_int" where
  "mysqlTime_Day t = ucast (day t)"

definition mysqlTime_Hour :: "mysqlTime \<Rightarrow> go_int" where
  "mysqlTime_Hour t = ucast (hour t)"

definition mysqlTime_Minute :: "mysqlTime \<Rightarrow> go_int" where
  "mysqlTime_Minute t = ucast (minute t)"

definition mysqlTime_Second :: "mysqlTime \<Rightarrow> go_int" where
  "mysqlTime_Second t = ucast (second t)"

definition mysqlTime_Microsecond :: "mysqlTime \<Rightarrow> go_int" where
  "mysqlTime_Microsecond t = ucast (microsecond t)"

text \<open>\<open>newMysqlTime\<close>: each \<open>int\<close> argument is narrowed to the width of its field.\<close>

definition newMysqlTime ::
  "go_int \<Rightarrow> go_int \<Rightarrow> go_int \<Rightarrow> go_int \<Rightarrow> go_int \<Rightarrow> go_int \<Rightarrow> go_int \<Rightarrow> mysqlTime" where
  "newMysqlTime y mo d h mi s us =
     \<lparr>year = ucast y, month = ucast mo, day = ucast d, hour = ucast h,
      minute = ucast mi, second = ucast s, microsecond = ucast us\<rparr>"

section \<open>Day numbers\<close>

text \<open>\<open>calcDaynr\<close>: days since 0000-00-00.\<close>

definition calcDaynr :: "go_int \<Rightarrow> go_int \<Rightarrow> go_int \<Rightarrow> go_int" where
  "calcDaynr y mo d =
     (if y = 0 \<and> mo = 0 then 0
      else
        let delsum = 365 * y + 31 * (mo - 1) + d;
            (y', delsum') =
               (if mo \<le>s 2 then (y - 1, delsum)
                else (y, delsum - go_div (mo * 4 + 23) 10));
            temp = go_div ((go_div y' 100 + 1) * 3) 4
        in delsum' + go_div y' 4 - temp)"

text \<open>
  \<open>DayNumber\<close> is the closed form in the words of the specification, over the mathematical
  integers, with truncating division \<open>sdiv\<close>: 0 when year and month are both 0, otherwise
  \<open>365*year + 31*(month-1) + day\<close>, less \<open>(month*4+23)/10\<close> when the month is past February,
  plus \<open>year/4 - ((year/100+1)*3)/4\<close> for the year, taken one less when the month is at most 2.
  It is compared with \<open>calcDaynr\<close> below.
\<close>

definition DayNumber :: "int \<Rightarrow> int \<Rightarrow> int \<Rightarrow> int" where
  "DayNumber y m d =
     (if y = 0 \<and> m = 0 then 0
      else let yc = (if m \<le> 2 then y - 1 else y)
           in 365 * y + 31 * (m - 1) + d - (if m \<le> 2 then 0 else (m * 4 + 23) sdiv 10)
              + yc sdiv 4 - ((yc sdiv 100 + 1) * 3) sdiv 4)"

text \<open>\<open>calcDaysInYear\<close>: the source's leap rule; year 0 has 365 days.\<close>

definition calcDaysInYear :: "go_int \<Rightarrow> go_int" where
  "calcDaysInYear y =
     (if y AND 3 = 0 \<and> (go_mod y 100 \<noteq> 0 \<or> (go_mod y 400 = 0 \<and> y \<noteq> 0))
      then 366 else 365)"

text \<open>\<open>calcWeekday\<close>: 0 for Monday, 1 for Tuesday, ...\<close>

definition calcWeekday :: "go_int \<Rightarrow> bool \<Rightarrow> go_int" where
  "calcWeekday daynr sundayFirstDayOfWeek =
     (let daynr1 = daynr + 5;
          daynr2 = (if sundayFirstDayOfWeek then daynr1 + 1 else daynr1)
      in go_mod daynr2 7)"

section \<open>Week numbering\<close>

type_synonym weekBehaviour = "64 word"

definition weekBehaviourMondayFirst :: weekBehaviour where
  "weekBehaviourMondayFirst = 1"

definition weekBehaviourYear :: weekBehaviour where
  "weekBehaviourYear = 2"

definition weekBehaviourFirstWeekday :: weekBehaviour where
  "weekBehaviourFirstWeekday = 4"

definition test :: "weekBehaviour \<Rightarrow> weekBehaviour \<Rightarrow> bool" where
  "test v flag \<longleftrightarrow> v AND flag \<noteq> 0"

definition weekMode :: "go_int \<Rightarrow> weekBehaviour" where
  "weekMode mode =
     (let weekFormat = mode AND 7
      in if weekFormat AND weekBehaviourMondayFirst = 0
         then weekFormat XOR weekBehaviourFirstWeekday
         else weekFormat)"

text \<open>
  \<open>calcWeek\<close> returns the pair \<open>(year, week)\<close>. The first conditional of the source either
  returns week 0 at once or rolls the date back into the previous year; \<open>rollback\<close> is the
  state \<open>(weekYear, year, firstDaynr, weekday)\<close> after that conditional.
\<close>

definition calcWeek :: "mysqlTime \<Rightarrow> weekBehaviour \<Rightarrow> go_int \<times> go_int" where
  "calcWeek t wb =
     (let daynr = calcDaynr (ucast (year t)) (ucast (month t)) (ucast (day t));
          firstDaynr = calcDaynr (ucast (year t)) 1 1;
          mondayFirst = test wb weekBehaviourMondayFirst;
          weekYear = test wb weekBehaviourYear;
          firstWeekday = test wb weekBehaviourFirstWeekday;
          weekday = calcWeekday firstDaynr (\<not> mondayFirst);
          yr = (ucast (year t) :: go_int);
          inFirstWeek = (month t = 1 \<and> (ucast (day t) :: go_int) \<le>s 7 - weekday)
      in
        if inFirstWeek \<and> \<not> weekYear \<and>
           ((firstWeekday \<and> weekday \<noteq> 0) \<or> (\<not> firstWeekday \<and> 4 \<le>s weekday))
        then (yr, 0)
        else
          let rollback =
                (if inFirstWeek
                 then let yr1 = yr - 1; days0 = calcDaysInYear yr1
                      in (True, yr1, firstDaynr - days0,
                          go_mod (weekday + 53 * 7 - days0) 7)
                 else (weekYear, yr, firstDaynr, weekday));
              weekYear' = fst rollback;
              yr' = fst (snd rollback);
              firstDaynr' = fst (snd (snd rollback));
              weekday' = snd (snd (snd rollback));
              days =
                (if (firstWeekday \<and> weekday' \<noteq> 0) \<or> (\<not> firstWeekday \<and> 4 \<le>s weekday')
                 then daynr - (firstDaynr' + 7 - weekday')
                 else daynr - (firstDaynr' - weekday'));
              weekday'' = go_mod (weekday' + calcDaysInYear yr') 7
          in
            if weekYear' \<and> 52 * 7 \<le>s days \<and>
               ((\<not> firstWeekday \<and> weekday'' <s 4) \<or> (firstWeekday \<and> weekday'' = 0))
            then (yr' + 1, 1)
            else (yr', go_div days 7 + 1))"

definition YearWeek :: "mysqlTime \<Rightarrow> go_int \<Rightarrow> go_int \<times> go_int" where
  "YearWeek t mode =
     (if month t = 0 \<or> day t = 0 then (0, 0)
      else calcWeek t (weekMode mode OR weekBehaviourYear))"

definition Week :: "mysqlTime \<Rightarrow> go_int \<Rightarrow> go_int" where
  "Week t mode =
     (if month t = 0 \<or> day t = 0 then 0
      else snd (calcWeek t (weekMode mode)))"

section \<open>The host calendar \<open>gotime\<close>\<close>

text \<open>
  \<open>GoTime\<close> builds a \<open>gotime.Time\<close> with \<open>gotime.Date(..., gotime.Local)\<close> and reads it back with
  \<open>Date()\<close>, \<open>Clock()\<close> and \<open>Nanosecond()\<close>. The standard library and the local time zone are
  outside the repository, so they are a parameter: a record of the six host operations the
  source calls, over an arbitrary type \<open>'tm\<close> of host times.
\<close>

record 'tm gotime =
  gotime_Date :: "go_int \<Rightarrow> go_int \<Rightarrow> go_int \<Rightarrow> go_int \<Rightarrow> go_int \<Rightarrow> go_int \<Rightarrow> go_int \<Rightarrow> 'tm"
  tm_Date :: "'tm \<Rightarrow> go_int \<times> go_int \<times> go_int"
  tm_Clock :: "'tm \<Rightarrow> go_int \<times> go_int \<times> go_int"
  tm_Nanosecond :: "'tm \<Rightarrow> go_int"
  tm_Weekday :: "'tm \<Rightarrow> go_int"
  tm_YearDay :: "'tm \<Rightarrow> go_int"

datatype error = ErrInvalidTimeFormat

definition GoTime :: "'tm gotime \<Rightarrow> mysqlTime \<Rightarrow> 'tm \<times> error option" where
  "GoTime h t =
     (let tm = gotime_Date h (mysqlTime_Year t) (mysqlTime_Month t) (mysqlTime_Day t)
                 (mysqlTime_Hour t) (mysqlTime_Minute t) (mysqlTime_Second t)
                 (mysqlTime_Microsecond t * 1000);
          (year', month', day') = tm_Date h tm;
          (hour', minute', second') = tm_Clock h tm;
          microsec = go_div (tm_Nanosecond h tm) 1000
      in if year' \<noteq> mysqlTime_Year t \<or> month' \<noteq> mysqlTime_Month t \<or> day' \<noteq> mysqlTime_Day t \<or>
            hour' \<noteq> mysqlTime_Hour t \<or> minute' \<noteq> mysqlTime_Minute t \<or>
            second' \<noteq> mysqlTime_Second t \<or> microsec \<noteq> mysqlTime_Microsecond t
         then (tm, Some ErrInvalidTimeFormat)
         else (tm, None))"

definition Weekday :: "'tm gotime \<Rightarrow> mysqlTime \<Rightarrow> go_int" where
  "Weekday h t = (case GoTime h t of (t1, Some err) \<Rightarrow> 0 | (t1, None) \<Rightarrow> tm_Weekday h t1)"

definition YearDay :: "'tm gotime \<Rightarrow> mysqlTime \<Rightarrow> go_int" where
  "YearDay h t = (case GoTime h t of (t1, Some err) \<Rightarrow> 0 | (t1, None) \<Rightarrow> tm_YearDay h t1)"

text \<open>
  What the theorems below ask of a host: the day that \<open>Date()\<close> reports for a time built by
  \<open>gotime.Date\<close> lies in a month 1..12 and is a day that month can have.
\<close>

definition maxDaysIn :: "int \<Rightarrow> int" where
  "maxDaysIn m = (if m = 2 then 29 else if m = 4 \<or> m = 6 \<or> m = 9 \<or> m = 11 then 30 else 31)"

definition calendar_host :: "'tm gotime \<Rightarrow> bool" where
  "calendar_host h \<longleftrightarrow>
     (\<forall>y mo d hh mi s ns.
        case tm_Date h (gotime_Date h y mo d hh mi s ns) of
          (y', m', d') \<Rightarrow> 1 \<le> sint m' \<and> sint m' \<le> 12 \<and> 1 \<le> sint d' \<and> sint d' \<le> maxDaysIn (sint m'))"

subsection \<open>A reference host: the proleptic Gregorian calendar in UTC\<close>

text \<open>
  One host that meets \<open>calendar_host\<close>: out-of-range fields are carried into the next larger
  field, as \<open>gotime.Date\<close> documents (October 32 becomes November 1, day 0 the last day of
  the previous month), with the leap rule of the \<open>time\<close> package and no zone offset.
\<close>

definition isLeap :: "int \<Rightarrow> bool" where
  "isLeap y \<longleftrightarrow> y mod 4 = 0 \<and> (y mod 100 \<noteq> 0 \<or> y mod 400 = 0)"

definition daysIn :: "int \<Rightarrow> int \<Rightarrow> int" where
  "daysIn m y = (if m = 2 then (if isLeap y then 29 else 28)
                 else if m = 4 \<or> m = 6 \<or> m = 9 \<or> m = 11 then 30 else 31)"

definition norm :: "int \<Rightarrow> int \<Rightarrow> int \<Rightarrow> int \<times> int" where
  "norm hi lo base = (hi + lo div base, lo mod base)"

function normDay :: "int \<Rightarrow> int \<Rightarrow> int \<Rightarrow> int \<times> int \<times> int" where
  "normDay y m d =
     (if d < 1 then
        (if m \<le> 1 then normDay (y - 1) 12 (d + daysIn 12 (y - 1))
         else normDay y (m - 1) (d + daysIn (m - 1) y))
      else if daysIn m y < d then
        (if 12 \<le> m then normDay (y + 1) 1 (d - daysIn m y)
         else normDay y (m + 1) (d - daysIn m y))
      else (y, m, d))"
  by pat_completeness auto
termination
  by (relation "measure (\<lambda>(y, m, d). if d < 1 then nat (33 - d) else nat d)")
     (auto simp: daysIn_def)

declare normDay.simps [simp del]

record civil =
  cyear :: int
  cmonth :: int
  cday :: int
  chour :: int
  cminute :: int
  csecond :: int
  cnsec :: int

definition utc_Date ::
  "go_int \<Rightarrow> go_int \<Rightarrow> go_int \<Rightarrow> go_int \<Rightarrow> go_int \<Rightarrow> go_int \<Rightarrow> go_int \<Rightarrow> civil" where
  "utc_Date y mo d hh mi s ns =
     (let (y1, m0) = norm (sint y) (sint mo - 1) 12;
          (s1, ns1) = norm (sint s) (sint ns) 1000000000;
          (mi1, s2) = norm (sint mi) s1 60;
          (hh1, mi2) = norm (sint hh) mi1 60;
          (d1, hh2) = norm (sint d) hh1 24;
          (y2, m2, d2) = normDay y1 (m0 + 1) d1
      in \<lparr>cyear = y2, cmonth = m2, cday = d2, chour = hh2, cminute = mi2,
          csecond = s2, cnsec = ns1\<rparr>)"

text \<open>Days from 1970-01-01 to a civil date, for the weekday and the day of the year.\<close>

definition daysFromCivil :: "int \<Rightarrow> int \<Rightarrow> int \<Rightarrow> int" where
  "daysFromCivil y m d =
     (let y1 = (if m \<le> 2 then y - 1 else y);
          era = y1 div 400;
          yoe = y1 - era * 400;
          doy = (153 * (if 2 < m then m - 3 else m + 9) + 2) div 5 + d - 1;
          doe = yoe * 365 + yoe div 4 - yoe div 100 + doy
      in era * 146097 + doe - 719468)"

definition utc_host :: "civil gotime" where
  "utc_host =
     \<lparr>gotime_Date = utc_Date,
      tm_Date = (\<lambda>c. (word_of_int (cyear c), word_of_int (cmonth c), word_of_int (cday c))),
      tm_Clock = (\<lambda>c. (word_of_int (chour c), word_of_int (cminute c), word_of_int (csecond c))),
      tm_Nanosecond = (\<lambda>c. word_of_int (cnsec c)),
      tm_Weekday = (\<lambda>c. word_of_int ((daysFromCivil (cyear c) (cmonth c) (cday c) + 4) mod 7)),
      tm_YearDay = (\<lambda>c. word_of_int (daysFromCivil (cyear c) (cmonth c) (cday c)
                                       - daysFromCivil (cyear c) 1 1 + 1))\<rparr>"

section \<open>The \<open>TimeInternal\<close> interface and the arithmetic over it\<close>

text \<open>
  \<open>TimeInternal\<close> is the interface of the seven accessor methods; a value of it is
  observed only through what the seven methods return.
\<close>

record TimeInternal =
  Year :: go_int
  Month :: go_int
  Day :: go_int
  Hour :: go_int
  Minute :: go_int
  Second :: go_int
  Microsecond :: go_int

text \<open>A \<open>mysqlTime\<close> passed where a \<open>TimeInternal\<close> is expected.\<close>

definition mysqlTime_TimeInternal :: "mysqlTime \<Rightarrow> TimeInternal" where
  "mysqlTime_TimeInternal t =
     \<lparr>Year = mysqlTime_Year t, Month = mysqlTime_Month t, Day = mysqlTime_Day t,
      Hour = mysqlTime_Hour t, Minute = mysqlTime_Minute t, Second = mysqlTime_Second t,
      Microsecond = mysqlTime_Microsecond t\<rparr>"

definition SECONDS_IN_24H :: go_int where
  "SECONDS_IN_24H = 86400"

text \<open>
  \<open>calcTimeDiff\<close>: the source assigns \<open>0\<close> and \<open>1\<close> to the boolean \<open>neg\<close>; they are read as
  \<open>false\<close> and \<open>true\<close>.
\<close>

definition calcTimeDiff :: "TimeInternal \<Rightarrow> TimeInternal \<Rightarrow> go_int \<Rightarrow> go_int \<times> go_int \<times> bool" where
  "calcTimeDiff t1 t2 sign =
     (let days0 = calcDaynr (Year t1) (Month t1) (Day t1);
          days = days0 - sign * calcDaynr (Year t2) (Month t2) (Day t2);
          tmp = (days * SECONDS_IN_24H + Hour t1 * 3600 + Minute t1 * 60 + Second t1
                 - sign * (Hour t2 * 3600 + Minute t2 * 60 + Second t2)) * 1000000
                + Microsecond t1 - sign * Microsecond t2;
          neg = (tmp <s 0);
          tmp' = (if tmp <s 0 then - tmp else tmp)
      in (go_div tmp' 1000000, go_mod tmp' 1000000, neg))"

text \<open>
  The step \<open>if tmp < 0 { tmp = -tmp }\<close> of \<open>calcTimeDiff\<close> on its own, for the proofs about
  swapped arguments.
\<close>

definition magnitude :: "64 word \<Rightarrow> 64 word" where
  "magnitude T = (if T <s 0 then - T else T)"

definition datetimeToUint64 :: "TimeInternal \<Rightarrow> 64 word" where
  "datetimeToUint64 t =
     (Year t * 10000 + Month t * 100 + Day t) * 1000000
     + (Hour t * 10000 + Minute t * 100 + Second t)"

definition dateToUint64 :: "TimeInternal \<Rightarrow> 64 word" where
  "dateToUint64 t = Year t * 10000 + Month t * 100 + Day t"

section \<open>Calendar dates and the next day\<close>

text \<open>
  Calendar notions for stating how \<open>calcDaynr\<close> behaves from one day to the next; they are
  not functions of the source. \<open>mysqlDaysIn m y\<close> is the length of month \<open>m\<close> of year \<open>y\<close>
  under the source's own leap rule (February has 29 days exactly when \<open>calcDaysInYear\<close>
  gives 366, so year 0 is a common year); \<open>daysIn\<close> above is the same under the proleptic
  Gregorian rule, where year 0 is a leap year. \<open>nextDate dim\<close> is the date one calendar day
  later when months have the lengths \<open>dim\<close>, and \<open>daynrOf\<close> is \<open>calcDaynr\<close> on a date given
  as integers.
\<close>

definition mysqlDaysIn :: "int \<Rightarrow> int \<Rightarrow> int" where
  "mysqlDaysIn m y =
     (if m = 2 then (if calcDaysInYear (word_of_int y) = 366 then 29 else 28)
      else if m = 4 \<or> m = 6 \<or> m = 9 \<or> m = 11 then 30 else 31)"

definition nextDate :: "(int \<Rightarrow> int \<Rightarrow> int) \<Rightarrow> int \<Rightarrow> int \<Rightarrow> int \<Rightarrow> int \<times> int \<times> int" where
  "nextDate dim y m d =
     (if d < dim m y then (y, m, d + 1)
      else if m < 12 then (y, m + 1, 1)
      else (y + 1, 1, 1))"

definition daynrOf :: "int \<times> int \<times> int \<Rightarrow> int" where
  "daynrOf ymd =
     (case ymd of (y, m, d) \<Rightarrow> sint (calcDaynr (word_of_int y) (word_of_int m) (word_of_int d)))"

section \<open>Week number of 2000-01-01\<close>

text \<open>
  Claim C5. 2000-01-01 is a Saturday (weekday index 5 counting from Monday). With week mode 0
  the week-number computation \<open>calcWeek\<close> over the decoded mode returns week 0 of year 2000;
  with week mode 3 it takes the year-rollback branch and returns week 52, the last week,
  of 1999. The two returned years differ.
\<close>

theorem week_2000_01_01_modes_0_and_3:
  "calcWeekday (calcDaynr 2000 1 1) False = 5 \<and>
   calcWeek (newMysqlTime 2000 1 1 0 0 0 0) (weekMode 0) = (2000, 0) \<and>
   calcWeek (newMysqlTime 2000 1 1 0 0 0 0) (weekMode 3) = (1999, 52) \<and>
   fst (calcWeek (newMysqlTime 2000 1 1 0 0 0 0) (weekMode 0)) \<noteq>
   fst (calcWeek (newMysqlTime 2000 1 1 0 0 0 0) (weekMode 3))"
  by code_simp

section \<open>The reference host is a calendar host\<close>

lemma sint_word_of_int_id:
  "- (2 ^ 63) \<le> k \<Longrightarrow> k < 2 ^ 63 \<Longrightarrow> sint (word_of_int k :: 64 word) = k"
  by (simp add: sint_sbintrunc' signed_take_bit_int_eq_self)

lemma normDay_valid:
  "1 \<le> m \<Longrightarrow> m \<le> 12 \<Longrightarrow> normDay y m d = (y', m', d') \<Longrightarrow>
   1 \<le> m' \<and> m' \<le> 12 \<and> 1 \<le> d' \<and> d' \<le> daysIn m' y'"
proof (induction y m d rule: normDay.induct)
  case (1 y m d)
  show ?case
  proof (cases "d < 1")
    case True
    note lt = this
    show ?thesis
    proof (cases "m \<le> 1")
      case True
      have "normDay y m d = normDay (y - 1) 12 (d + daysIn 12 (y - 1))"
        using lt True by (subst normDay.simps) simp
      with lt True "1.prems" "1.IH"(1) show ?thesis by simp
    next
      case False
      have "normDay y m d = normDay y (m - 1) (d + daysIn (m - 1) y)"
        using lt False by (subst normDay.simps) simp
      with lt False "1.prems" "1.IH"(2) show ?thesis by simp
    qed
  next
    case False
    note nlt = this
    show ?thesis
    proof (cases "daysIn m y < d")
      case True
      note big = this
      show ?thesis
      proof (cases "12 \<le> m")
        case True
        have "normDay y m d = normDay (y + 1) 1 (d - daysIn m y)"
          using nlt big True by (subst normDay.simps) simp
        with nlt big True "1.prems" "1.IH"(3) show ?thesis by simp
      next
        case False
        have "normDay y m d = normDay y (m + 1) (d - daysIn m y)"
          using nlt big False by (subst normDay.simps) simp
        with nlt big False "1.prems" "1.IH"(4) show ?thesis by simp
      qed
    next
      case False
      have "normDay y m d = (y, m, d)"
        using nlt False by (subst normDay.simps) simp
      with nlt False "1.prems" show ?thesis by simp
    qed
  qed
qed

lemma daysIn_le_max: "daysIn m y \<le> maxDaysIn m"
  by (simp add: daysIn_def maxDaysIn_def)

lemma utc_host_calendar: "calendar_host utc_host"
  unfolding calendar_host_def
proof (intro allI)
  fix y mo d hh mi s ns :: go_int
  define d1 where "d1 = fst (norm (sint d) (fst (norm (sint hh) (fst (norm (sint mi) (fst (norm (sint s) (sint ns) 1000000000)) 60)) 60)) 24)"
  obtain y2 m2 d2 where nd:
    "normDay (sint y + (sint mo - 1) div 12) ((sint mo - 1) mod 12 + 1) d1 = (y2, m2, d2)"
    using prod_cases3 by blast
  have m0: "1 \<le> (sint mo - 1) mod 12 + 1" "(sint mo - 1) mod 12 + 1 \<le> 12"
    by simp_all
  from normDay_valid [OF m0 nd]
  have v: "1 \<le> m2" "m2 \<le> 12" "1 \<le> d2" "d2 \<le> daysIn m2 y2" by simp_all
  have d31: "d2 \<le> 31" using v(4) by (simp add: daysIn_def split: if_splits)
  have dm: "d2 \<le> maxDaysIn m2" using v(4) daysIn_le_max [of m2 y2] by simp
  have sm: "sint (word_of_int m2 :: 64 word) = m2" using v by (simp add: sint_word_of_int_id)
  have sd: "sint (word_of_int d2 :: 64 word) = d2" using v d31 by (simp add: sint_word_of_int_id)
  have "tm_Date utc_host (gotime_Date utc_host y mo d hh mi s ns)
        = (word_of_int y2, word_of_int m2, word_of_int d2)"
    using nd by (simp add: utc_host_def utc_Date_def norm_def split_def Let_def d1_def)
  then show "case tm_Date utc_host (gotime_Date utc_host y mo d hh mi s ns) of
          (y', m', d') \<Rightarrow> 1 \<le> sint m' \<and> sint m' \<le> 12 \<and> 1 \<le> sint d' \<and> sint d' \<le> maxDaysIn (sint m')"
    using v dm sm sd by simp
qed

section \<open>Validation by round trip\<close>

text \<open>
  Claim C1. For every calendar value \<open>t\<close> and every host, \<open>GoTime\<close> returns the host time
  built from the seven fields of \<open>t\<close> (the microseconds scaled to nanoseconds), in both
  outcomes. It returns no error exactly when the year, month, day, hour, minute, second and
  microsecond read back from that time all equal the fields of \<open>t\<close>, and it returns
  \<open>ErrInvalidTimeFormat\<close> exactly when at least one of them differs.
\<close>

theorem GoTime_round_trip_check:
  "fst (GoTime h t) =
     gotime_Date h (mysqlTime_Year t) (mysqlTime_Month t) (mysqlTime_Day t)
       (mysqlTime_Hour t) (mysqlTime_Minute t) (mysqlTime_Second t)
       (mysqlTime_Microsecond t * 1000) \<and>
   (snd (GoTime h t) = None) =
     (tm_Date h (fst (GoTime h t)) = (mysqlTime_Year t, mysqlTime_Month t, mysqlTime_Day t) \<and>
      tm_Clock h (fst (GoTime h t)) = (mysqlTime_Hour t, mysqlTime_Minute t, mysqlTime_Second t) \<and>
      go_div (tm_Nanosecond h (fst (GoTime h t))) 1000 = mysqlTime_Microsecond t) \<and>
   (snd (GoTime h t) = Some ErrInvalidTimeFormat) =
     (tm_Date h (fst (GoTime h t)) \<noteq> (mysqlTime_Year t, mysqlTime_Month t, mysqlTime_Day t) \<or>
      tm_Clock h (fst (GoTime h t)) \<noteq> (mysqlTime_Hour t, mysqlTime_Minute t, mysqlTime_Second t) \<or>
      go_div (tm_Nanosecond h (fst (GoTime h t))) 1000 \<noteq> mysqlTime_Microsecond t)"
  by (auto simp: GoTime_def Let_def split_def prod_eq_iff)

theorem GoTime_round_trip_check_witness:
  "snd (GoTime utc_host (newMysqlTime 2016 2 29 1 2 3 4)) = None \<and>
   tm_Date utc_host (fst (GoTime utc_host (newMysqlTime 2016 2 29 1 2 3 4))) = (2016, 2, 29) \<and>
   snd (GoTime utc_host (newMysqlTime 2006 12 0 0 0 0 0)) = Some ErrInvalidTimeFormat \<and>
   tm_Date utc_host (fst (GoTime utc_host (newMysqlTime 2006 12 0 0 0 0 0))) = (2006, 11, 30)"
proof -
  have a: "snd (GoTime utc_host (newMysqlTime 2016 2 29 1 2 3 4)) = None"
    by code_simp
  have b: "snd (GoTime utc_host (newMysqlTime 2006 12 0 0 0 0 0)) = Some ErrInvalidTimeFormat"
    by code_simp
  have c: "mysqlTime_Year (newMysqlTime 2016 2 29 1 2 3 4) = 2016"
    "mysqlTime_Month (newMysqlTime 2016 2 29 1 2 3 4) = 2"
    "mysqlTime_Day (newMysqlTime 2016 2 29 1 2 3 4) = 29"
    by (simp_all add: mysqlTime_Year_def mysqlTime_Month_def mysqlTime_Day_def newMysqlTime_def)
  have d: "tm_Date utc_host (fst (GoTime utc_host (newMysqlTime 2006 12 0 0 0 0 0))) = (2006, 11, 30)"
    by code_simp
  note r = GoTime_round_trip_check [of utc_host "newMysqlTime 2016 2 29 1 2 3 4",
      THEN conjunct2, THEN conjunct1]
  from a r have "tm_Date utc_host (fst (GoTime utc_host (newMysqlTime 2016 2 29 1 2 3 4)))
      = (mysqlTime_Year (newMysqlTime 2016 2 29 1 2 3 4),
         mysqlTime_Month (newMysqlTime 2016 2 29 1 2 3 4),
         mysqlTime_Day (newMysqlTime 2016 2 29 1 2 3 4))"
    by blast
  with a b c d show ?thesis by simp
qed

section \<open>The zero-date sentinel\<close>

lemma GoTime_date_mismatch:
  assumes "tm_Date h (gotime_Date h (mysqlTime_Year t) (mysqlTime_Month t) (mysqlTime_Day t)
                 (mysqlTime_Hour t) (mysqlTime_Minute t) (mysqlTime_Second t)
                 (mysqlTime_Microsecond t * 1000)) \<noteq> (mysqlTime_Year t, mysqlTime_Month t, mysqlTime_Day t)"
  shows "snd (GoTime h t) = Some ErrInvalidTimeFormat"
  using assms by (auto simp: GoTime_def Let_def split_def prod_eq_iff)

lemma calendar_hostD:
  assumes "calendar_host h" and "tm_Date h (gotime_Date h y mo d hh mi s ns) = (y', m', d')"
  shows "1 \<le> sint m'" "sint m' \<le> 12" "1 \<le> sint d'" "sint d' \<le> maxDaysIn (sint m')"
  using assms(1) [unfolded calendar_host_def, rule_format, of y mo d hh mi s ns] assms(2)
  by simp_all

lemma GoTime_zero_date:
  assumes z: "month t = 0 \<or> day t = 0" and h: "calendar_host h"
  shows "snd (GoTime h t) = Some ErrInvalidTimeFormat"
proof (rule GoTime_date_mismatch, rule notI)
  assume eq: "tm_Date h (gotime_Date h (mysqlTime_Year t) (mysqlTime_Month t) (mysqlTime_Day t)
                 (mysqlTime_Hour t) (mysqlTime_Minute t) (mysqlTime_Second t)
                 (mysqlTime_Microsecond t * 1000)) = (mysqlTime_Year t, mysqlTime_Month t, mysqlTime_Day t)"
  from calendar_hostD [OF h eq] have "1 \<le> sint (mysqlTime_Month t)" "1 \<le> sint (mysqlTime_Day t)"
    by simp_all
  with z show False
    by (auto simp: mysqlTime_Month_def mysqlTime_Day_def)
qed

text \<open>
  Claim C2. For a calendar value whose month field or day field is 0, whatever the other
  fields and the week mode: \<open>YearWeek\<close> returns \<open>(0, 0)\<close> and \<open>Week\<close> returns 0, both decided
  by the guard on the two fields alone (neither function takes the host, so neither can
  build a host time or fail with \<open>ErrInvalidTimeFormat\<close>); and on every calendar host
  \<open>Weekday\<close> and \<open>YearDay\<close> return 0, because the round trip of \<open>GoTime\<close> cannot give back
  a month or a day 0.
\<close>

theorem zero_date_sentinels:
  assumes "month t = 0 \<or> day t = 0" and "calendar_host h"
  shows "YearWeek t mode = (0, 0) \<and> Week t mode = 0 \<and> Weekday h t = 0 \<and> YearDay h t = 0"
proof -
  from GoTime_zero_date [OF assms] obtain tm where "GoTime h t = (tm, Some ErrInvalidTimeFormat)"
    by (cases "GoTime h t") simp
  with assms(1) show ?thesis
    by (simp add: YearWeek_def Week_def Weekday_def YearDay_def)
qed

theorem zero_date_sentinels_witness:
  "YearWeek (newMysqlTime 2006 12 0 0 0 0 0) 3 = (0, 0) \<and>
   Week (newMysqlTime 2006 12 0 0 0 0 0) 3 = 0 \<and>
   Weekday utc_host (newMysqlTime 2006 12 0 0 0 0 0) = 0 \<and>
   YearDay utc_host (newMysqlTime 2006 12 0 0 0 0 0) = 0"
proof -
  have "month (newMysqlTime 2006 12 0 0 0 0 0) = 0 \<or> day (newMysqlTime 2006 12 0 0 0 0 0) = 0"
    by (simp add: newMysqlTime_def)
  from zero_date_sentinels [OF this utc_host_calendar] show ?thesis .
qed

section \<open>February 30\<close>

text \<open>
  Claim C8. For the calendar value constructed as (2016, 2, 30, 0, 0, 0, 0), \<open>GoTime\<close> fails
  with \<open>ErrInvalidTimeFormat\<close> on every calendar host (no host day is a February 30, so the
  round trip cannot give the day back), while \<open>dateToUint64\<close> on the same value returns
  20160230: the integer encoding performs no validity check.
\<close>

theorem february_30_rejected_but_encoded:
  assumes "calendar_host h"
  shows "snd (GoTime h (newMysqlTime 2016 2 30 0 0 0 0)) = Some ErrInvalidTimeFormat \<and>
         dateToUint64 (mysqlTime_TimeInternal (newMysqlTime 2016 2 30 0 0 0 0)) = 20160230"
proof
  let ?t = "newMysqlTime 2016 2 30 0 0 0 0"
  have f: "mysqlTime_Year ?t = 2016" "mysqlTime_Month ?t = 2" "mysqlTime_Day ?t = 30"
    by (simp_all add: mysqlTime_Year_def mysqlTime_Month_def mysqlTime_Day_def newMysqlTime_def)
  show "snd (GoTime h ?t) = Some ErrInvalidTimeFormat"
  proof (rule GoTime_date_mismatch, rule notI)
    assume eq: "tm_Date h (gotime_Date h (mysqlTime_Year ?t) (mysqlTime_Month ?t) (mysqlTime_Day ?t)
                 (mysqlTime_Hour ?t) (mysqlTime_Minute ?t) (mysqlTime_Second ?t)
                 (mysqlTime_Microsecond ?t * 1000)) = (mysqlTime_Year ?t, mysqlTime_Month ?t, mysqlTime_Day ?t)"
    from calendar_hostD(4) [OF assms eq] have "sint (mysqlTime_Day ?t) \<le> maxDaysIn (sint (mysqlTime_Month ?t))" .
    then show False by (simp add: f maxDaysIn_def)
  qed
  show "dateToUint64 (mysqlTime_TimeInternal ?t) = 20160230"
    by (simp add: dateToUint64_def mysqlTime_TimeInternal_def f)
qed

theorem february_30_rejected_but_encoded_witness:
  "snd (GoTime utc_host (newMysqlTime 2016 2 30 0 0 0 0)) = Some ErrInvalidTimeFormat \<and>
   dateToUint64 (mysqlTime_TimeInternal (newMysqlTime 2016 2 30 0 0 0 0)) = 20160230 \<and>
   tm_Date utc_host (fst (GoTime utc_host (newMysqlTime 2016 2 30 0 0 0 0))) = (2016, 3, 1)"
proof -
  have "tm_Date utc_host (fst (GoTime utc_host (newMysqlTime 2016 2 30 0 0 0 0))) = (2016, 3, 1)"
    by code_simp
  with february_30_rejected_but_encoded [OF utc_host_calendar] show ?thesis by simp
qed

section \<open>Construction truncates\<close>

lemma narrow_widen:
  fixes y :: "64 word"
  assumes "LENGTH('a::len) < 64"
  shows "sint (ucast (ucast y :: 'a word) :: 64 word) = sint y mod 2 ^ LENGTH('a)"
proof -
  have le: "(2::int) ^ LENGTH('a) \<le> 2 ^ 63"
    using assms by (intro power_increasing) simp_all
  have "uint (ucast y :: 'a word) = take_bit LENGTH('a) (uint y)"
    by (simp add: unsigned_ucast_eq)
  also have "\<dots> = take_bit LENGTH('a) (take_bit 64 (sint y))"
    by (simp add: uint_sint)
  also have "\<dots> = take_bit LENGTH('a) (sint y)"
    using assms by (simp add: min_def)
  finally have u: "uint (ucast y :: 'a word) = take_bit LENGTH('a) (sint y)" .
  have b: "0 \<le> take_bit LENGTH('a) (sint y)" "take_bit LENGTH('a) (sint y) < 2 ^ 63"
  proof -
    show "0 \<le> take_bit LENGTH('a) (sint y)" by simp
    have "take_bit LENGTH('a) (sint y) < 2 ^ LENGTH('a)" by simp
    with le show "take_bit LENGTH('a) (sint y) < 2 ^ 63" by linarith
  qed
  have "sint (ucast (ucast y :: 'a word) :: 64 word)
        = signed_take_bit 63 (uint (ucast y :: 'a word))"
    by (simp add: signed_ucast_eq)
  also have "\<dots> = take_bit LENGTH('a) (sint y)"
    unfolding u
  proof (rule signed_take_bit_int_eq_self)
    have "- (2 ^ 63) \<le> (0::int)" by simp
    with b(1) show "- (2 ^ 63) \<le> take_bit LENGTH('a) (sint y)" by linarith
    show "take_bit LENGTH('a) (sint y) < 2 ^ 63" by (rule b(2))
  qed
  finally show ?thesis by (simp add: take_bit_eq_mod)
qed

lemma narrow_widen_id:
  fixes y :: "64 word"
  assumes "LENGTH('a::len) < 64" "0 \<le> sint y" "sint y < 2 ^ LENGTH('a)"
  shows "(ucast (ucast y :: 'a word) :: 64 word) = y"
proof -
  have "sint (ucast (ucast y :: 'a word) :: 64 word) = sint y"
    using assms by (simp add: narrow_widen)
  then show ?thesis by (rule signed_word_eqI)
qed

text \<open>
  Claim C9. \<open>newMysqlTime\<close> is total and checks nothing: for every seven \<open>int\<close> inputs the
  accessors of the constructed value return the input reduced modulo the width of its field
  (year modulo \<open>2^16\<close>, month, day, hour, minute and second modulo \<open>2^8\<close>, microsecond modulo
  \<open>2^32\<close>, the non-negative residue also for a negative input), and an input already within
  \<open>0 .. 2^w - 1\<close> is returned unchanged.
\<close>

theorem newMysqlTime_truncates:
  "sint (mysqlTime_Year (newMysqlTime y mo d h mi s us)) = sint y mod 2 ^ 16 \<and>
   sint (mysqlTime_Month (newMysqlTime y mo d h mi s us)) = sint mo mod 2 ^ 8 \<and>
   sint (mysqlTime_Day (newMysqlTime y mo d h mi s us)) = sint d mod 2 ^ 8 \<and>
   sint (mysqlTime_Hour (newMysqlTime y mo d h mi s us)) = sint h mod 2 ^ 8 \<and>
   sint (mysqlTime_Minute (newMysqlTime y mo d h mi s us)) = sint mi mod 2 ^ 8 \<and>
   sint (mysqlTime_Second (newMysqlTime y mo d h mi s us)) = sint s mod 2 ^ 8 \<and>
   sint (mysqlTime_Microsecond (newMysqlTime y mo d h mi s us)) = sint us mod 2 ^ 32 \<and>
   (0 \<le> sint y \<and> sint y < 2 ^ 16 \<longrightarrow> mysqlTime_Year (newMysqlTime y mo d h mi s us) = y) \<and>
   (0 \<le> sint mo \<and> sint mo < 2 ^ 8 \<longrightarrow> mysqlTime_Month (newMysqlTime y mo d h mi s us) = mo) \<and>
   (0 \<le> sint d \<and> sint d < 2 ^ 8 \<longrightarrow> mysqlTime_Day (newMysqlTime y mo d h mi s us) = d) \<and>
   (0 \<le> sint h \<and> sint h < 2 ^ 8 \<longrightarrow> mysqlTime_Hour (newMysqlTime y mo d h mi s us) = h) \<and>
   (0 \<le> sint mi \<and> sint mi < 2 ^ 8 \<longrightarrow> mysqlTime_Minute (newMysqlTime y mo d h mi s us) = mi) \<and>
   (0 \<le> sint s \<and> sint s < 2 ^ 8 \<longrightarrow> mysqlTime_Second (newMysqlTime y mo d h mi s us) = s) \<and>
   (0 \<le> sint us \<and> sint us < 2 ^ 32 \<longrightarrow> mysqlTime_Microsecond (newMysqlTime y mo d h mi s us) = us)"
  unfolding mysqlTime_Year_def mysqlTime_Month_def mysqlTime_Day_def mysqlTime_Hour_def
    mysqlTime_Minute_def mysqlTime_Second_def mysqlTime_Microsecond_def newMysqlTime_def
  by (simp add: narrow_widen narrow_widen_id)

theorem newMysqlTime_truncates_witness:
  "sint (mysqlTime_Year (newMysqlTime 65537 (-1) 256 23 59 300 4294967297)) = 1 \<and>
   sint (mysqlTime_Month (newMysqlTime 65537 (-1) 256 23 59 300 4294967297)) = 255 \<and>
   sint (mysqlTime_Day (newMysqlTime 65537 (-1) 256 23 59 300 4294967297)) = 0 \<and>
   mysqlTime_Hour (newMysqlTime 65537 (-1) 256 23 59 300 4294967297) = 23 \<and>
   mysqlTime_Minute (newMysqlTime 65537 (-1) 256 23 59 300 4294967297) = 59 \<and>
   sint (mysqlTime_Second (newMysqlTime 65537 (-1) 256 23 59 300 4294967297)) = 44 \<and>
   sint (mysqlTime_Microsecond (newMysqlTime 65537 (-1) 256 23 59 300 4294967297)) = 1"
  using newMysqlTime_truncates [of 65537 "-1" 256 23 59 300 4294967297]
  by simp

section \<open>Truncating division on 64-bit integers\<close>

lemma sdiv_pos_divisor:
  "0 < c \<Longrightarrow> (a::int) sdiv c = (if 0 \<le> a then a div c else - ((- a) div c))"
  by (simp add: signed_divide_int_def sgn_if abs_if)

lemma smod_pos_divisor:
  "0 < c \<Longrightarrow> (a::int) smod c = (if 0 \<le> a then a mod c else - ((- a) mod c))"
  by (simp add: signed_modulo_int_def sgn_if abs_if)

lemma div_le_self_nonneg: "0 \<le> a \<Longrightarrow> a div c \<le> (a::int)"
  using int_div_le_self [of a c] by (cases "a = 0") simp_all

lemma sdiv_pos_bounds:
  assumes "0 < (c::int)"
  shows "0 \<le> a \<Longrightarrow> 0 \<le> a sdiv c \<and> a sdiv c \<le> a"
    and "a \<le> 0 \<Longrightarrow> a \<le> a sdiv c \<and> a sdiv c \<le> 0"
proof -
  show "0 \<le> a \<Longrightarrow> 0 \<le> a sdiv c \<and> a sdiv c \<le> a"
    using assms by (simp add: sdiv_pos_divisor pos_imp_zdiv_nonneg_iff div_le_self_nonneg)
  show "a \<le> 0 \<Longrightarrow> a \<le> a sdiv c \<and> a sdiv c \<le> 0"
    using assms div_le_self_nonneg [of "- a" c]
    by (auto simp add: sdiv_pos_divisor pos_imp_zdiv_nonneg_iff)
qed

lemma smod_pos_bounds:
  assumes "0 < (c::int)"
  shows "0 \<le> a \<Longrightarrow> 0 \<le> a smod c \<and> a smod c < c"
    and "a \<le> 0 \<Longrightarrow> - c < a smod c \<and> a smod c \<le> 0"
  using assms by (auto simp add: smod_pos_divisor)

lemma sint_bounds: "- (2 ^ 63) \<le> sint (a :: 64 word)" "sint (a :: 64 word) < 2 ^ 63"
  using sint_ge [of a] sint_lt [of a] by simp_all

lemma sint_go_div_pos:
  assumes c: "0 < sint c"
  shows "sint (go_div a c) = sint a sdiv sint c"
proof -
  have "- (2 ^ 63) \<le> sint a sdiv sint c \<and> sint a sdiv sint c < 2 ^ 63"
    using sdiv_pos_bounds [OF c, of "sint a"] sint_bounds [of a]
    by (cases "0 \<le> sint a") auto
  then show ?thesis by (simp add: go_div_def sint_word_of_int_id)
qed

lemma sint_go_mod_pos:
  assumes c: "0 < sint c"
  shows "sint (go_mod a c) = sint a smod sint c"
proof -
  have "- (2 ^ 63) \<le> sint a smod sint c \<and> sint a smod sint c < 2 ^ 63"
    using smod_pos_bounds [OF c, of "sint a"] sint_bounds [of c]
    by (cases "0 \<le> sint a") auto
  then show ?thesis by (simp add: go_mod_def sint_word_of_int_id)
qed

section \<open>Time difference with swapped arguments\<close>

lemma sint_minus_not_min:
  fixes T :: "64 word"
  assumes "sint T \<noteq> - (2 ^ 63)"
  shows "sint (- T) = - sint T"
proof -
  have "- (2 ^ 63) \<le> - sint T" "- sint T < 2 ^ 63"
    using sint_bounds [of T] assms by simp_all
  then show ?thesis
    by (simp add: sint_word_ariths signed_take_bit_int_eq_self)
qed

lemma minus_min_word:
  fixes T :: "64 word"
  assumes "sint T = - (2 ^ 63)"
  shows "- T = T"
proof (rule signed_word_eqI)
  have "sint (- T) = signed_take_bit 63 (- sint T)" by (simp add: sint_word_ariths)
  also have "\<dots> = signed_take_bit 63 (2 ^ 63)" using assms by simp
  also have "\<dots> = - (2 ^ 63)" by (simp add: signed_take_bit_eq_take_bit_shift take_bit_eq_mod)
  finally show "sint (- T) = sint T" using assms by simp
qed

lemma magnitude_negate: "magnitude (- T) = magnitude T"
proof (cases "sint T = - (2 ^ 63)")
  case True
  then show ?thesis by (simp add: minus_min_word)
next
  case False
  then have "sint (- T) = - sint T" by (rule sint_minus_not_min)
  moreover have "sint T = 0 \<Longrightarrow> T = 0" by (simp add: signed_eq_0_iff)
  ultimately show ?thesis
    by (cases "sint T < 0"; cases "sint T = 0") (auto simp: magnitude_def word_sless_alt)
qed

lemma negative_flag_negate:
  "(- T <s 0) =
     (if (go_div (magnitude T) 1000000 = 0 \<and> go_mod (magnitude T) 1000000 = 0)
         \<or> go_div (magnitude T) 1000000 <s 0
      then T <s 0 else \<not> T <s 0)"
proof (cases "sint T = - (2 ^ 63)")
  case True
  then have m: "- T = T" by (rule minus_min_word)
  have neg: "T <s 0" using True by (simp add: word_sless_alt)
  have "sint (go_div T 1000000) = sint T sdiv 1000000"
    using sint_go_div_pos [of 1000000 T] by simp
  then have d: "go_div T 1000000 <s 0"
    using True by (simp add: word_sless_alt signed_divide_int_def)
  have mg: "magnitude T = T"
    using neg by (simp only: magnitude_def m if_True)
  have "go_div (magnitude T) 1000000 <s 0"
    using d by (simp only: mg)
  then have "(if (go_div (magnitude T) 1000000 = 0 \<and> go_mod (magnitude T) 1000000 = 0)
         \<or> go_div (magnitude T) 1000000 <s 0
      then T <s 0 else \<not> T <s 0) = (T <s 0)"
    by (simp only: simp_thms if_True)
  moreover have "(- T <s 0) = (T <s 0)" by (simp only: m)
  ultimately show ?thesis by (simp only:)
next
  case False
  then have sm: "sint (- T) = - sint T" by (rule sint_minus_not_min)
  have z: "sint T = 0 \<longleftrightarrow> T = 0" by (simp add: signed_eq_0_iff)
  have mag: "sint (magnitude T) = \<bar>sint T\<bar>"
    using sm by (simp add: magnitude_def word_sless_alt)
  have dv: "sint (go_div (magnitude T) 1000000) = \<bar>sint T\<bar> div 1000000"
    using sint_go_div_pos [of 1000000 "magnitude T"] mag by (simp add: sdiv_pos_divisor)
  have md: "sint (go_mod (magnitude T) 1000000) = \<bar>sint T\<bar> mod 1000000"
    using sint_go_mod_pos [of 1000000 "magnitude T"] mag by (simp add: smod_pos_divisor)
  have nonneg: "\<not> go_div (magnitude T) 1000000 <s 0"
    using dv by (simp add: word_sless_alt pos_imp_zdiv_nonneg_iff)
  have zero: "(go_div (magnitude T) 1000000 = 0 \<and> go_mod (magnitude T) 1000000 = 0) \<longleftrightarrow> T = 0"
  proof
    assume "go_div (magnitude T) 1000000 = 0 \<and> go_mod (magnitude T) 1000000 = 0"
    then have "\<bar>sint T\<bar> div 1000000 = 0" "\<bar>sint T\<bar> mod 1000000 = 0"
      using dv md by simp_all
    then have "\<bar>sint T\<bar> = 0"
      using div_mult_mod_eq [of "\<bar>sint T\<bar>" 1000000] by simp
    then show "T = 0" using z by simp
  next
    assume "T = 0"
    then show "go_div (magnitude T) 1000000 = 0 \<and> go_mod (magnitude T) 1000000 = 0"
      by (simp add: magnitude_def go_div_def go_mod_def)
  qed
  show ?thesis
    using nonneg zero sm z by (auto simp: word_sless_alt)
qed

lemma calcTimeDiff_magnitude:
  "calcTimeDiff t1 t2 sign =
     (let tmp = (((calcDaynr (Year t1) (Month t1) (Day t1)
                   - sign * calcDaynr (Year t2) (Month t2) (Day t2)) * SECONDS_IN_24H
                  + Hour t1 * 3600 + Minute t1 * 60 + Second t1
                  - sign * (Hour t2 * 3600 + Minute t2 * 60 + Second t2)) * 1000000
                 + Microsecond t1 - sign * Microsecond t2)
      in (go_div (magnitude tmp) 1000000, go_mod (magnitude tmp) 1000000, tmp <s 0))"
  by (simp add: calcTimeDiff_def magnitude_def Let_def)

lemma magnitude_split:
  "(go_div (magnitude T) 1000000 = 0 \<and> go_mod (magnitude T) 1000000 = 0) = (T = 0)"
  "(go_div (magnitude T) 1000000 <s 0) = (sint T = - (2 ^ 63))"
proof -
  have "((go_div (magnitude T) 1000000 = 0 \<and> go_mod (magnitude T) 1000000 = 0) = (T = 0)) \<and>
        ((go_div (magnitude T) 1000000 <s 0) = (sint T = - (2 ^ 63)))"
  proof (cases "sint T = - (2 ^ 63)")
    case True
    then have m: "- T = T" by (rule minus_min_word)
    have neg: "T <s 0" using True by (simp add: word_sless_alt)
    have mg: "magnitude T = T" using neg by (simp only: magnitude_def m if_True)
    have "sint (go_div T 1000000) = sint T sdiv 1000000"
      using sint_go_div_pos [of 1000000 T] by simp
    then have d: "sint (go_div T 1000000) = - 9223372036854"
      using True by (simp add: signed_divide_int_def)
    then have d1: "go_div T 1000000 <s 0" by (simp add: word_sless_alt)
    have d2: "go_div T 1000000 \<noteq> 0" using d by auto
    have "T \<noteq> 0" using True by auto
    with d1 d2 True show ?thesis by (simp only: mg simp_thms)
  next
    case False
    then have sm: "sint (- T) = - sint T" by (rule sint_minus_not_min)
    have z: "sint T = 0 \<longleftrightarrow> T = 0" by (simp add: signed_eq_0_iff)
    have mag: "sint (magnitude T) = \<bar>sint T\<bar>"
      using sm by (simp add: magnitude_def word_sless_alt)
    have dv: "sint (go_div (magnitude T) 1000000) = \<bar>sint T\<bar> div 1000000"
      using sint_go_div_pos [of 1000000 "magnitude T"] mag by (simp add: sdiv_pos_divisor)
    have md: "sint (go_mod (magnitude T) 1000000) = \<bar>sint T\<bar> mod 1000000"
      using sint_go_mod_pos [of 1000000 "magnitude T"] mag by (simp add: smod_pos_divisor)
    have nonneg: "\<not> go_div (magnitude T) 1000000 <s 0"
      using dv by (simp add: word_sless_alt pos_imp_zdiv_nonneg_iff)
    have zero: "(go_div (magnitude T) 1000000 = 0 \<and> go_mod (magnitude T) 1000000 = 0) \<longleftrightarrow> T = 0"
    proof
      assume "go_div (magnitude T) 1000000 = 0 \<and> go_mod (magnitude T) 1000000 = 0"
      then have "\<bar>sint T\<bar> div 1000000 = 0" "\<bar>sint T\<bar> mod 1000000 = 0"
        using dv md by simp_all
      then have "\<bar>sint T\<bar> = 0"
        using div_mult_mod_eq [of "\<bar>sint T\<bar>" 1000000] by simp
      then show "T = 0" using z by simp
    next
      assume "T = 0"
      then show "go_div (magnitude T) 1000000 = 0 \<and> go_mod (magnitude T) 1000000 = 0"
        by (simp add: magnitude_def go_div_def go_mod_def)
    qed
    from nonneg zero False show ?thesis by (simp only: simp_thms)
  qed
  then show "(go_div (magnitude T) 1000000 = 0 \<and> go_mod (magnitude T) 1000000 = 0) = (T = 0)"
    "(go_div (magnitude T) 1000000 <s 0) = (sint T = - (2 ^ 63))" by blast+
qed

text \<open>
  Claim C6, as amended. For all \<open>TimeInternal\<close> values \<open>a\<close> and \<open>b\<close>, with \<open>T\<close> the difference
  in microseconds that \<open>calcTimeDiff a b 1\<close> computes in its variable \<open>tmp\<close>: if
  \<open>calcTimeDiff a b 1\<close> returns \<open>(s, u, neg)\<close> then \<open>calcTimeDiff b a 1\<close> returns the same
  magnitude \<open>(s, u)\<close>, and its negative flag is \<open>neg\<close> flipped whenever the magnitude is not
  zero and \<open>s\<close> is not negative. The flag \<open>neg\<close> is \<open>T < 0\<close>; the magnitude is zero exactly
  when \<open>T\<close> is zero, and then \<open>neg\<close> is false, so for a zero difference, in particular for
  \<open>a = b\<close>, both calls return \<open>(0, 0, false)\<close>; and \<open>s\<close> is negative exactly when \<open>T\<close> is
  \<open>-2^63\<close>, whose negation wraps around to itself.
\<close>

theorem calcTimeDiff_swap:
  fixes a b :: TimeInternal
  defines "T \<equiv> ((calcDaynr (Year a) (Month a) (Day a) - calcDaynr (Year b) (Month b) (Day b))
                    * SECONDS_IN_24H
                  + Hour a * 3600 + Minute a * 60 + Second a
                  - (Hour b * 3600 + Minute b * 60 + Second b)) * 1000000
                 + Microsecond a - Microsecond b"
  assumes r: "calcTimeDiff a b 1 = (s, u, neg)"
  shows "calcTimeDiff b a 1 = (s, u, if (s = 0 \<and> u = 0) \<or> s <s 0 then neg else \<not> neg) \<and>
         neg = (T <s 0) \<and>
         (s = 0 \<and> u = 0) = (T = 0) \<and>
         (s = 0 \<and> u = 0 \<longrightarrow> \<not> neg) \<and>
         (a = b \<longrightarrow> s = 0 \<and> u = 0 \<and> \<not> neg) \<and>
         (s <s 0) = (sint T = - (2 ^ 63))"
proof -
  have ab: "calcTimeDiff a b 1 = (go_div (magnitude T) 1000000, go_mod (magnitude T) 1000000, T <s 0)"
    by (simp add: calcTimeDiff_magnitude T_def Let_def)
  have "calcTimeDiff b a 1 = (go_div (magnitude (- T)) 1000000, go_mod (magnitude (- T)) 1000000, - T <s 0)"
    by (simp add: calcTimeDiff_magnitude T_def Let_def algebra_simps)
  then have ba: "calcTimeDiff b a 1 = (go_div (magnitude T) 1000000, go_mod (magnitude T) 1000000,
      if (go_div (magnitude T) 1000000 = 0 \<and> go_mod (magnitude T) 1000000 = 0)
         \<or> go_div (magnitude T) 1000000 <s 0
      then T <s 0 else \<not> T <s 0)"
    by (simp only: magnitude_negate negative_flag_negate [of T])
  from r ab have e: "s = go_div (magnitude T) 1000000" "u = go_mod (magnitude T) 1000000"
    "neg = (T <s 0)" by simp_all
  have c1: "calcTimeDiff b a 1 = (s, u, if (s = 0 \<and> u = 0) \<or> s <s 0 then neg else \<not> neg)"
    using ba by (simp only: e)
  have c3: "(s = 0 \<and> u = 0) = (T = 0)" by (simp only: e magnitude_split)
  have c6: "(s <s 0) = (sint T = - (2 ^ 63))" by (simp only: e magnitude_split)
  have c4: "\<not> neg" if "s = 0 \<and> u = 0"
  proof -
    from that c3 have "T = 0" by simp
    then show ?thesis by (simp add: e(3))
  qed
  have c5: "s = 0 \<and> u = 0 \<and> \<not> neg" if "a = b"
  proof -
    have "T = 0" using that by (simp add: T_def)
    with c3 c4 show ?thesis by blast
  qed
  from c1 e(3) c3 c4 c5 c6 show ?thesis by blast
qed

text \<open>
  Claim C6, as stated, fails when the two arguments are equal: the difference is zero, the
  flag is \<open>false\<close> in both orders, and not flipped.
\<close>

theorem calcTimeDiff_equal_counterexample:
  "calcTimeDiff \<lparr>Year = 2016, Month = 2, Day = 29, Hour = 1, Minute = 2, Second = 3, Microsecond = 4\<rparr>
                \<lparr>Year = 2016, Month = 2, Day = 29, Hour = 1, Minute = 2, Second = 3, Microsecond = 4\<rparr> 1
     = (0, 0, False) \<and>
   calcTimeDiff \<lparr>Year = 2016, Month = 2, Day = 29, Hour = 1, Minute = 2, Second = 3, Microsecond = 4\<rparr>
                \<lparr>Year = 2016, Month = 2, Day = 29, Hour = 1, Minute = 2, Second = 3, Microsecond = 4\<rparr> 1
     \<noteq> (0, 0, True)"
  by code_simp

theorem calcTimeDiff_swap_witness:
  "calcTimeDiff \<lparr>Year = 2016, Month = 3, Day = 1, Hour = 1, Minute = 2, Second = 3, Microsecond = 5\<rparr>
                \<lparr>Year = 2016, Month = 2, Day = 29, Hour = 1, Minute = 2, Second = 3, Microsecond = 4\<rparr> 1
     = (86400, 1, False) \<and>
   calcTimeDiff \<lparr>Year = 2016, Month = 2, Day = 29, Hour = 1, Minute = 2, Second = 3, Microsecond = 4\<rparr>
                \<lparr>Year = 2016, Month = 3, Day = 1, Hour = 1, Minute = 2, Second = 3, Microsecond = 5\<rparr> 1
     = (86400, 1, True) \<and>
   calcTimeDiff \<lparr>Year = 2016, Month = 2, Day = 29, Hour = 1, Minute = 2, Second = 3, Microsecond = 4\<rparr>
                \<lparr>Year = 2016, Month = 2, Day = 29, Hour = 1, Minute = 2, Second = 3, Microsecond = 4\<rparr> 1
     = (0, 0, False)"
proof -
  let ?A = "\<lparr>Year = 2016, Month = 2, Day = 29, Hour = 1, Minute = 2, Second = 3, Microsecond = (4 :: go_int)\<rparr>"
  obtain s u neg where aa: "calcTimeDiff ?A ?A 1 = (s, u, neg)"
    using prod_cases3 by blast
  from calcTimeDiff_swap [OF aa] have "s = 0 \<and> u = 0 \<and> \<not> neg" by blast
  with aa have same: "calcTimeDiff ?A ?A 1 = (0, 0, False)" by simp
  have ab: "calcTimeDiff \<lparr>Year = 2016, Month = 3, Day = 1, Hour = 1, Minute = 2, Second = 3, Microsecond = 5\<rparr>
                \<lparr>Year = 2016, Month = 2, Day = 29, Hour = 1, Minute = 2, Second = 3, Microsecond = 4\<rparr> 1
     = (86400, 1, False)"
    by code_simp
  from calcTimeDiff_swap [OF ab, THEN conjunct1] have
    "calcTimeDiff \<lparr>Year = 2016, Month = 2, Day = 29, Hour = 1, Minute = 2, Second = 3, Microsecond = 4\<rparr>
                \<lparr>Year = 2016, Month = 3, Day = 1, Hour = 1, Minute = 2, Second = 3, Microsecond = 5\<rparr> 1
     = (86400, 1, True)"
    by (simp add: word_sless_alt)
  with ab same show ?thesis by (simp only: simp_thms)
qed

section \<open>Decoding the integer encoding\<close>

lemma digits_step:
  fixes q r :: int
  assumes "0 \<le> r" "r < 100"
  shows "(q * 100 + r) div 100 = q" "(q * 100 + r) mod 100 = r"
  using assms by simp_all

text \<open>
  Claim C7. For every \<open>TimeInternal\<close> value with year 0..9999, month 0..12, day 0..31,
  hour 0..23, minute 0..59 and second 0..59, the unsigned value of \<open>datetimeToUint64\<close> is the
  untruncated number YYYYMMDDHHMMSS, below \<open>10^14\<close>, and reading its decimal digits by place
  value (two digits each for second, minute, hour, day and month, the rest for the year)
  gives back the six fields exactly.
\<close>

theorem datetimeToUint64_decodes:
  assumes y: "0 \<le> sint (Year t)" "sint (Year t) \<le> 9999"
    and mo: "0 \<le> sint (Month t)" "sint (Month t) \<le> 12"
    and d: "0 \<le> sint (Day t)" "sint (Day t) \<le> 31"
    and h: "0 \<le> sint (Hour t)" "sint (Hour t) \<le> 23"
    and mi: "0 \<le> sint (Minute t)" "sint (Minute t) \<le> 59"
    and s: "0 \<le> sint (Second t)" "sint (Second t) \<le> 59"
  shows "uint (datetimeToUint64 t) =
           sint (Year t) * 10000000000 + sint (Month t) * 100000000 + sint (Day t) * 1000000
           + sint (Hour t) * 10000 + sint (Minute t) * 100 + sint (Second t) \<and>
         uint (datetimeToUint64 t) < 100000000000000 \<and>
         uint (datetimeToUint64 t) mod 100 = sint (Second t) \<and>
         uint (datetimeToUint64 t) div 100 mod 100 = sint (Minute t) \<and>
         uint (datetimeToUint64 t) div 10000 mod 100 = sint (Hour t) \<and>
         uint (datetimeToUint64 t) div 1000000 mod 100 = sint (Day t) \<and>
         uint (datetimeToUint64 t) div 100000000 mod 100 = sint (Month t) \<and>
         uint (datetimeToUint64 t) div 10000000000 = sint (Year t)"
proof -
  define E4 where "E4 = sint (Year t) * 100 + sint (Month t)"
  define E3 where "E3 = E4 * 100 + sint (Day t)"
  define E2 where "E2 = E3 * 100 + sint (Hour t)"
  define E1 where "E1 = E2 * 100 + sint (Minute t)"
  define E where "E = E1 * 100 + sint (Second t)"
  have flat: "E = sint (Year t) * 10000000000 + sint (Month t) * 100000000
    + sint (Day t) * 1000000 + sint (Hour t) * 10000 + sint (Minute t) * 100 + sint (Second t)"
    by (simp add: E_def E1_def E2_def E3_def E4_def)
  have "datetimeToUint64 t =
      (word_of_int (sint (Year t)) * 10000 + word_of_int (sint (Month t)) * 100
         + word_of_int (sint (Day t))) * 1000000
      + (word_of_int (sint (Hour t)) * 10000 + word_of_int (sint (Minute t)) * 100
         + word_of_int (sint (Second t)))"
    by (simp add: datetimeToUint64_def)
  also have "\<dots> = word_of_int E"
    by (simp add: flat algebra_simps)
  finally have w: "datetimeToUint64 t = word_of_int E" .
  have lo: "0 \<le> E" using y mo d h mi s by (simp add: flat)
  have hi: "E < 100000000000000" using y mo d h mi s by (simp add: flat)
  have "uint (datetimeToUint64 t) = E mod 2 ^ 64"
    by (simp add: w uint_word_of_int)
  also have "\<dots> = E" using lo hi by simp
  finally have u: "uint (datetimeToUint64 t) = E" .
  have s0: "E div 100 = E1" "E mod 100 = sint (Second t)"
    using s digits_step [of "sint (Second t)" E1] by (simp_all add: E_def)
  have s1: "E1 div 100 = E2" "E1 mod 100 = sint (Minute t)"
    using mi digits_step [of "sint (Minute t)" E2] by (simp_all add: E1_def)
  have s2: "E2 div 100 = E3" "E2 mod 100 = sint (Hour t)"
    using h digits_step [of "sint (Hour t)" E3] by (simp_all add: E2_def)
  have s3: "E3 div 100 = E4" "E3 mod 100 = sint (Day t)"
    using d digits_step [of "sint (Day t)" E4] by (simp_all add: E3_def)
  have s4: "E4 div 100 = sint (Year t)" "E4 mod 100 = sint (Month t)"
    using mo digits_step [of "sint (Month t)" "sint (Year t)"] by (simp_all add: E4_def)
  have d2: "E div 10000 = E div 100 div 100"
    using zdiv_zmult2_eq [of 100 E 100] by simp
  have d3: "E div 1000000 = E div 10000 div 100"
    using zdiv_zmult2_eq [of 100 E 10000] by simp
  have d4: "E div 100000000 = E div 1000000 div 100"
    using zdiv_zmult2_eq [of 100 E 1000000] by simp
  have d5: "E div 10000000000 = E div 100000000 div 100"
    using zdiv_zmult2_eq [of 100 E 100000000] by simp
  have e2: "E div 10000 = E2" by (simp only: d2 s0 s1)
  have e3: "E div 1000000 = E3" by (simp only: d3 e2 s2)
  have e4: "E div 100000000 = E4" by (simp only: d4 e3 s3)
  have e5: "E div 10000000000 = sint (Year t)" by (simp only: d5 e4 s4)
  show ?thesis
    unfolding u
    using flat hi s0 s1 s2 s3 s4 e2 e3 e4 e5 by (simp only: simp_thms)
qed

theorem datetimeToUint64_decodes_witness:
  "uint (datetimeToUint64 (mysqlTime_TimeInternal (newMysqlTime 9999 12 31 23 59 59 999999)))
     = 99991231235959 \<and>
   uint (datetimeToUint64 (mysqlTime_TimeInternal (newMysqlTime 9999 12 31 23 59 59 999999)))
     div 10000000000 = 9999 \<and>
   uint (datetimeToUint64 (mysqlTime_TimeInternal (newMysqlTime 9999 12 31 23 59 59 999999)))
     div 100000000 mod 100 = 12"
proof -
  let ?t = "mysqlTime_TimeInternal (newMysqlTime 9999 12 31 23 59 59 999999)"
  have f: "Year ?t = 9999" "Month ?t = 12" "Day ?t = 31" "Hour ?t = 23" "Minute ?t = 59"
    "Second ?t = 59"
    by (simp_all add: mysqlTime_TimeInternal_def mysqlTime_Year_def mysqlTime_Month_def
        mysqlTime_Day_def mysqlTime_Hour_def mysqlTime_Minute_def mysqlTime_Second_def
        newMysqlTime_def)
  have "0 \<le> sint (Year ?t)" "sint (Year ?t) \<le> 9999" "0 \<le> sint (Month ?t)" "sint (Month ?t) \<le> 12"
    "0 \<le> sint (Day ?t)" "sint (Day ?t) \<le> 31" "0 \<le> sint (Hour ?t)" "sint (Hour ?t) \<le> 23"
    "0 \<le> sint (Minute ?t)" "sint (Minute ?t) \<le> 59" "0 \<le> sint (Second ?t)" "sint (Second ?t) \<le> 59"
    by (simp_all add: f)
  from datetimeToUint64_decodes [OF this] show ?thesis
    by (simp add: f)
qed

section \<open>Arithmetic that does not wrap around\<close>

lemma sint_add_no_wrap:
  fixes a b :: "64 word"
  assumes "- (2 ^ 63) \<le> sint a + sint b" "sint a + sint b < 2 ^ 63"
  shows "sint (a + b) = sint a + sint b"
  using assms by (simp add: sint_word_ariths signed_take_bit_int_eq_self)

lemma sint_diff_no_wrap:
  fixes a b :: "64 word"
  assumes "- (2 ^ 63) \<le> sint a - sint b" "sint a - sint b < 2 ^ 63"
  shows "sint (a - b) = sint a - sint b"
  using assms by (simp add: sint_word_ariths signed_take_bit_int_eq_self)

lemma sint_mult_no_wrap:
  fixes a b :: "64 word"
  assumes "- (2 ^ 63) \<le> sint a * sint b" "sint a * sint b < 2 ^ 63"
  shows "sint (a * b) = sint a * sint b"
  using assms by (simp add: sint_word_ariths signed_take_bit_int_eq_self)

lemma sdiv_between:
  fixes a c lo hi :: int
  assumes "0 < c" "lo \<le> a" "a \<le> hi" "lo \<le> 0" "0 \<le> hi"
  shows "lo \<le> a sdiv c" "a sdiv c \<le> hi"
  using sdiv_pos_bounds [OF assms(1), of a] assms(2-5) by (cases "0 \<le> a"; auto)+

section \<open>The day number in closed form\<close>

lemma calcDaynr_unfold:
  "calcDaynr y mo d =
     (if y = 0 \<and> mo = 0 then 0
      else 365 * y + 31 * (mo - 1) + d
           - (if mo \<le>s 2 then 0 else go_div (mo * 4 + 23) 10)
           + go_div (if mo \<le>s 2 then y - 1 else y) 4
           - go_div ((go_div (if mo \<le>s 2 then y - 1 else y) 100 + 1) * 3) 4)"
  by (simp add: calcDaynr_def Let_def)

lemma calcDaynr_sint:
  fixes y mo d :: "64 word"
  assumes Y: "- 1000000000000000 \<le> sint y" "sint y \<le> 1000000000000000"
    and M: "- 1000000000000000 \<le> sint mo" "sint mo \<le> 1000000000000000"
    and D: "- 1000000000000000 \<le> sint d" "sint d \<le> 1000000000000000"
  shows "sint (calcDaynr y mo d) = DayNumber (sint y) (sint mo) (sint d)"
proof (cases "y = 0 \<and> mo = 0")
  case True
  then show ?thesis by (simp add: calcDaynr_unfold DayNumber_def)
next
  case False
  then have nz: "\<not> (sint y = 0 \<and> sint mo = 0)" by (simp add: signed_eq_0_iff)
  define yc where "yc = (if mo \<le>s 2 then y - 1 else y)"
  define Yc where "Yc = (if sint mo \<le> 2 then sint y - 1 else sint y)"
  have yc: "sint yc = Yc"
    using Y by (simp add: yc_def Yc_def word_sle_eq sint_diff_no_wrap)
  have ycb: "- 1000000000000001 \<le> Yc" "Yc \<le> 1000000000000000"
    using Y by (simp_all add: Yc_def)
  have q100: "sint (go_div yc 100) = Yc sdiv 100"
    using sint_go_div_pos [of 100 yc] by (simp add: yc)
  have q100c: "- 1000000000000001 \<le> Yc sdiv 100" "Yc sdiv 100 \<le> 1000000000000001"
    using sdiv_between [of 100 "- 1000000000000001" Yc 1000000000000001] ycb by simp_all
  have t: "sint ((go_div yc 100 + 1) * 3) = (Yc sdiv 100 + 1) * 3"
    using q100 q100c by (simp add: sint_mult_no_wrap sint_add_no_wrap)
  have temp: "sint (go_div ((go_div yc 100 + 1) * 3) 4) = ((Yc sdiv 100 + 1) * 3) sdiv 4"
    using sint_go_div_pos [of 4 "(go_div yc 100 + 1) * 3"] unfolding t by simp
  have tempc: "- 3000000000000006 \<le> ((Yc sdiv 100 + 1) * 3) sdiv 4"
    "((Yc sdiv 100 + 1) * 3) sdiv 4 \<le> 3000000000000006"
    using sdiv_between [of 4 "- 3000000000000006" "(Yc sdiv 100 + 1) * 3" 3000000000000006] q100c
    by simp_all
  have q4: "sint (go_div yc 4) = Yc sdiv 4"
    using sint_go_div_pos [of 4 yc] by (simp add: yc)
  have q4c: "- 1000000000000001 \<le> Yc sdiv 4" "Yc sdiv 4 \<le> 1000000000000001"
    using sdiv_between [of 4 "- 1000000000000001" Yc 1000000000000001] ycb by simp_all
  have m4: "sint (mo * 4 + 23) = sint mo * 4 + 23"
    using M by (simp add: sint_mult_no_wrap sint_add_no_wrap)
  have m10: "sint (go_div (mo * 4 + 23) 10) = (sint mo * 4 + 23) sdiv 10"
    using sint_go_div_pos [of 10 "mo * 4 + 23"] by (simp add: m4)
  have m10c: "- 4000000000000023 \<le> (sint mo * 4 + 23) sdiv 10"
    "(sint mo * 4 + 23) sdiv 10 \<le> 4000000000000023"
    using sdiv_between [of 10 "- 4000000000000023" "sint mo * 4 + 23" 4000000000000023] M
    by simp_all
  define corr where "corr = (if mo \<le>s 2 then 0 else go_div (mo * 4 + 23) 10)"
  define Corr where "Corr = (if sint mo \<le> 2 then 0 else (sint mo * 4 + 23) sdiv 10)"
  have corr: "sint corr = Corr"
    by (simp add: corr_def Corr_def word_sle_eq m10)
  have corrb: "- 4000000000000023 \<le> Corr" "Corr \<le> 4000000000000023"
    using m10c by (simp_all add: Corr_def)
  define tw where "tw = go_div ((go_div yc 100 + 1) * 3) 4"
  define Tw where "Tw = ((Yc sdiv 100 + 1) * 3) sdiv 4"
  define qw where "qw = go_div yc 4"
  define Qw where "Qw = Yc sdiv 4"
  have tws: "sint tw = Tw" by (simp only: tw_def Tw_def temp)
  have qws: "sint qw = Qw" by (simp only: qw_def Qw_def q4)
  have twb: "- 3000000000000006 \<le> Tw" "Tw \<le> 3000000000000006"
    using tempc by (simp_all only: Tw_def)
  have qwb: "- 1000000000000001 \<le> Qw" "Qw \<le> 1000000000000001"
    using q4c by (simp_all only: Qw_def)
  define w0 where "w0 = 365 * y + 31 * (mo - 1) + d"
  define W0 where "W0 = 365 * sint y + 31 * (sint mo - 1) + sint d"
  have s0: "sint w0 = W0"
    using Y M D by (simp add: w0_def W0_def sint_mult_no_wrap sint_add_no_wrap sint_diff_no_wrap)
  have W0b: "- 398000000000000000 \<le> W0" "W0 \<le> 398000000000000000"
    using Y M D by (simp_all add: W0_def)
  have s1: "sint (w0 - corr) = W0 - Corr"
    using W0b corrb by (simp add: sint_diff_no_wrap s0 corr)
  have s2: "sint (w0 - corr + qw) = W0 - Corr + Qw"
    using W0b corrb qwb by (simp add: sint_add_no_wrap s1 qws)
  have s3: "sint (w0 - corr + qw - tw) = W0 - Corr + Qw - Tw"
    using W0b corrb qwb twb by (simp add: sint_diff_no_wrap s2 tws)
  have "calcDaynr y mo d = w0 - corr + qw - tw"
    using False by (simp only: calcDaynr_unfold corr_def yc_def w0_def qw_def tw_def if_False)
  moreover have "DayNumber (sint y) (sint mo) (sint d) = W0 - Corr + Qw - Tw"
    unfolding DayNumber_def if_not_P [OF nz] Corr_def Yc_def W0_def Qw_def Tw_def Let_def
    by simp
  ultimately show ?thesis by (simp only: s3)
qed

text \<open>
  Claim C3. For every year, month and day, \<open>calcDaynr\<close> equals the closed form: 0 if year and
  month are both 0; otherwise \<open>365*year + 31*(month-1) + day\<close>, minus \<open>(month*4+23)/10\<close> unless
  \<open>month \<le> 2\<close>, plus \<open>year/4 - ((year/100+1)*3)/4\<close> where the year is taken one less if
  \<open>month \<le> 2\<close>, every division truncating. The first conjunct states it in the 64-bit
  arithmetic of the source for all inputs; the second, over the mathematical integers (no
  operation wraps) for arguments within \<open>\<plusminus>10^15\<close>.
\<close>

theorem calcDaynr_closed_form:
  "calcDaynr y mo d =
     (if y = 0 \<and> mo = 0 then 0
      else 365 * y + 31 * (mo - 1) + d
           - (if mo \<le>s 2 then 0 else go_div (mo * 4 + 23) 10)
           + go_div (if mo \<le>s 2 then y - 1 else y) 4
           - go_div ((go_div (if mo \<le>s 2 then y - 1 else y) 100 + 1) * 3) 4) \<and>
   (- 1000000000000000 \<le> sint y \<and> sint y \<le> 1000000000000000 \<and>
    - 1000000000000000 \<le> sint mo \<and> sint mo \<le> 1000000000000000 \<and>
    - 1000000000000000 \<le> sint d \<and> sint d \<le> 1000000000000000 \<longrightarrow>
    sint (calcDaynr y mo d) = DayNumber (sint y) (sint mo) (sint d))"
  using calcDaynr_unfold [of y mo d] calcDaynr_sint [of y mo d] by blast

theorem calcDaynr_closed_form_witness:
  "sint (calcDaynr 2000 1 1) = DayNumber 2000 1 1 \<and> DayNumber 2000 1 1 = 730485 \<and>
   sint (calcDaynr 2016 3 1) = DayNumber 2016 3 1 \<and> DayNumber 2016 3 1 = 736389 \<and>
   calcDaynr 0 0 7 = 0"
proof -
  have "sint (calcDaynr 2000 1 1)
        = DayNumber (sint (2000 :: 64 word)) (sint (1 :: 64 word)) (sint (1 :: 64 word))"
    by (rule calcDaynr_closed_form [THEN conjunct2, rule_format]) simp
  then have a: "sint (calcDaynr 2000 1 1) = DayNumber 2000 1 1" by simp
  have "sint (calcDaynr 2016 3 1)
        = DayNumber (sint (2016 :: 64 word)) (sint (3 :: 64 word)) (sint (1 :: 64 word))"
    by (rule calcDaynr_closed_form [THEN conjunct2, rule_format]) simp
  then have b: "sint (calcDaynr 2016 3 1) = DayNumber 2016 3 1" by simp
  have c: "calcDaynr 0 0 7 = 0"
    using calcDaynr_closed_form [of 0 0 7, THEN conjunct1] by simp
  have "DayNumber 2000 1 1 = 730485" "DayNumber 2016 3 1 = 736389"
    by (simp_all add: DayNumber_def signed_divide_int_def)
  with a b c show ?thesis by simp
qed

section \<open>The day number from one day to the next\<close>

lemma q4_step: "(Y::int) div 4 - (Y - 1) div 4 = (if Y mod 4 = 0 then 1 else 0)"
  by presburger

lemma three_quarters_step: "(((k::int) + 1) * 3) div 4 - (k * 3) div 4 = (if k mod 4 = 0 then 0 else 1)"
  by presburger

lemma div_mod_offset:
  fixes q r c :: int
  assumes "0 \<le> r" "r < c"
  shows "(q * c + r) div c = q"
  using assms by simp

lemma q100_step: "((Y::int) - 1) div 100 = (if Y mod 100 = 0 then Y div 100 - 1 else Y div 100)"
proof (cases "Y mod 100 = 0")
  case True
  have "Y div 100 * 100 + Y mod 100 = Y" by simp
  with True have e: "Y - 1 = (Y div 100 - 1) * 100 + 99" by simp
  have "((Y div 100 - 1) * 100 + 99) div 100 = Y div 100 - 1"
    by (rule div_mod_offset) simp_all
  then have "(Y - 1) div 100 = Y div 100 - 1" by (simp only: e)
  with True show ?thesis by simp
next
  case False
  have r: "0 \<le> Y mod 100" "Y mod 100 < 100" by simp_all
  have "Y div 100 * 100 + Y mod 100 = Y" by simp
  then have e: "Y - 1 = Y div 100 * 100 + (Y mod 100 - 1)" by simp
  have b: "0 \<le> Y mod 100 - 1" "Y mod 100 - 1 < 100" using r False by linarith+
  have "(Y div 100 * 100 + (Y mod 100 - 1)) div 100 = Y div 100"
    using b by (rule div_mod_offset)
  then have "(Y - 1) div 100 = Y div 100" by (simp only: e)
  with False show ?thesis by simp
qed

lemma century_multiple: "(Y::int) mod 100 = 0 \<Longrightarrow> Y = 100 * (Y div 100)"
  using mult_div_mod_eq [of 100 Y] by simp

lemma century_400: "(Y::int) mod 100 = 0 \<Longrightarrow> (Y mod 400 = 0) = ((Y div 100) mod 4 = 0)"
proof -
  assume a: "Y mod 100 = 0"
  define k where "k = Y div 100"
  have Y: "Y = 100 * k" using a unfolding k_def by (rule century_multiple)
  have "(100 * k) mod (100 * 4) = 100 * (k mod 4)" by (rule mult_mod_right [symmetric])
  then have "Y mod 400 = 100 * (k mod 4)" by (simp add: Y)
  then show ?thesis by (simp add: k_def)
qed

lemma century_4: "(Y::int) mod 100 = 0 \<Longrightarrow> Y mod 4 = 0"
proof -
  assume a: "Y mod 100 = 0"
  define k where "k = Y div 100"
  have Y: "Y = 100 * k" using a unfolding k_def by (rule century_multiple)
  have "Y = 4 * (25 * k)" by (simp add: Y)
  then have "4 dvd Y" by (rule dvdI)
  then show ?thesis by simp
qed

lemma leap_step:
  fixes Y :: int
  shows "Y div 4 - ((Y div 100 + 1) * 3) div 4
         - ((Y - 1) div 4 - (((Y - 1) div 100 + 1) * 3) div 4)
         = (if Y mod 4 = 0 \<and> (Y mod 100 \<noteq> 0 \<or> Y mod 400 = 0) then 1 else 0)"
proof (cases "Y mod 100 = 0")
  case True
  define k where "k = Y div 100"
  have c: "(Y - 1) div 100 = k - 1" using True by (simp add: q100_step k_def)
  have m4: "Y mod 4 = 0" using True by (rule century_4)
  have a: "Y div 4 - (Y - 1) div 4 = 1" using q4_step [of Y] m4 by simp
  have b: "((k + 1) * 3) div 4 - (k * 3) div 4 = (if k mod 4 = 0 then 0 else 1)"
    by (rule three_quarters_step)
  have l: "Y div 4 - ((k + 1) * 3) div 4 - ((Y - 1) div 4 - (k * 3) div 4)
           = (if k mod 4 = 0 then 1 else 0)"
    using a b by (cases "k mod 4 = 0") simp_all
  have r: "(Y mod 400 = 0) = (k mod 4 = 0)"
    using century_400 [OF True] by (simp only: k_def)
  have "(k - 1 + 1) = k" by simp
  then have "Y div 4 - ((Y div 100 + 1) * 3) div 4
         - ((Y - 1) div 4 - (((Y - 1) div 100 + 1) * 3) div 4)
        = Y div 4 - ((k + 1) * 3) div 4 - ((Y - 1) div 4 - (k * 3) div 4)"
    by (simp only: c k_def [symmetric])
  also have "\<dots> = (if k mod 4 = 0 then 1 else 0)" by (rule l)
  also have "\<dots> = (if Y mod 4 = 0 \<and> (Y mod 100 \<noteq> 0 \<or> Y mod 400 = 0) then 1 else 0)"
    using True m4 r by (cases "k mod 4 = 0") simp_all
  finally show ?thesis .
next
  case False
  have c: "(Y - 1) div 100 = Y div 100" using False by (simp add: q100_step)
  have "Y div 4 - ((Y div 100 + 1) * 3) div 4
         - ((Y - 1) div 4 - (((Y - 1) div 100 + 1) * 3) div 4)
        = Y div 4 - (Y - 1) div 4"
    unfolding c by linarith
  also have "\<dots> = (if Y mod 4 = 0 then 1 else 0)" by (rule q4_step)
  also have "\<dots> = (if Y mod 4 = 0 \<and> (Y mod 100 \<noteq> 0 \<or> Y mod 400 = 0) then 1 else 0)"
    using False by (cases "Y mod 4 = 0") simp_all
  finally show ?thesis .
qed

lemma and_3_eq_mod_4: "(k::int) AND 3 = k mod 4"
proof -
  have "(3::int) = mask 2" by (simp add: mask_eq_exp_minus_1)
  then have "k AND 3 = take_bit 2 k" by (simp only: take_bit_eq_mask)
  then show ?thesis by (simp add: take_bit_eq_mod)
qed

lemma word_and_3_zero:
  fixes w :: "64 word"
  assumes "0 \<le> sint w"
  shows "(w AND 3 = 0) = (sint w mod 4 = 0)"
proof -
  have u: "uint w = sint w"
  proof -
    have "uint w = take_bit 64 (sint w)" by (simp add: uint_sint)
    also have "\<dots> = sint w"
      using assms sint_bounds [of w] by (simp add: take_bit_int_eq_self)
    finally show ?thesis .
  qed
  have "(w AND 3 = 0) = (uint (w AND 3) = 0)" by (simp add: unsigned_eq_0_iff)
  also have "uint (w AND 3) = uint w AND 3" by (simp add: unsigned_and_eq)
  also have "\<dots> = sint w mod 4" by (simp only: and_3_eq_mod_4 u)
  finally show ?thesis .
qed

lemma go_mod_zero_nonneg:
  fixes w c :: "64 word"
  assumes "0 \<le> sint w" "0 < sint c"
  shows "(go_mod w c = 0) = (sint w mod sint c = 0)"
proof -
  have "sint (go_mod w c) = sint w smod sint c" using assms(2) by (rule sint_go_mod_pos)
  also have "\<dots> = sint w mod sint c" using assms by (simp add: smod_pos_divisor)
  finally have e: "sint (go_mod w c) = sint w mod sint c" .
  have "(go_mod w c = 0) = (sint (go_mod w c) = 0)" by (simp add: signed_eq_0_iff)
  then show ?thesis by (simp only: e)
qed

lemma calcDaysInYear_nonneg:
  fixes y :: "64 word"
  assumes "0 \<le> sint y"
  shows "calcDaysInYear y =
     (if sint y mod 4 = 0 \<and> (sint y mod 100 \<noteq> 0 \<or> (sint y mod 400 = 0 \<and> sint y \<noteq> 0))
      then 366 else 365)"
  using assms word_and_3_zero [OF assms] go_mod_zero_nonneg [of y 100] go_mod_zero_nonneg [of y 400]
  by (simp add: calcDaysInYear_def signed_eq_0_iff)


lemma DayNumber_jan_feb:
  assumes "1 \<le> Y" "1 \<le> M" "M \<le> 2"
  shows "DayNumber Y M D = 365 * Y + 31 * (M - 1) + D
           + ((Y - 1) div 4 - (((Y - 1) div 100 + 1) * 3) div 4)"
proof -
  have n: "0 \<le> Y - 1" "0 \<le> ((Y - 1) div 100 + 1) * 3"
    using assms(1) by (simp_all add: pos_imp_zdiv_nonneg_iff)
  have a: "(Y - 1) sdiv 4 = (Y - 1) div 4" "(Y - 1) sdiv 100 = (Y - 1) div 100"
    using n(1) by (simp_all add: sdiv_pos_divisor)
  have b: "(((Y - 1) div 100 + 1) * 3) sdiv 4 = (((Y - 1) div 100 + 1) * 3) div 4"
    using n(2) by (simp only: sdiv_pos_divisor) simp
  have nz: "\<not> (Y = 0 \<and> M = 0)" using assms by simp
  show ?thesis
    unfolding DayNumber_def if_not_P [OF nz] Let_def if_P [OF assms(3)] a b by simp
qed

lemma DayNumber_jan_feb_year0:
  assumes "1 \<le> M" "M \<le> 2"
  shows "DayNumber 0 M D = 31 * (M - 1) + D"
  using assms by (simp add: DayNumber_def signed_divide_int_def)

lemma DayNumber_mar_dec:
  assumes "0 \<le> Y" "3 \<le> M"
  shows "DayNumber Y M D = 365 * Y + 31 * (M - 1) + D - (M * 4 + 23) div 10
           + (Y div 4 - ((Y div 100 + 1) * 3) div 4)"
proof -
  have n: "0 \<le> (Y div 100 + 1) * 3" "0 \<le> M * 4 + 23"
    using assms by (simp_all add: pos_imp_zdiv_nonneg_iff)
  have a: "Y sdiv 4 = Y div 4" "Y sdiv 100 = Y div 100"
    using assms(1) by (simp_all add: sdiv_pos_divisor)
  have b: "((Y div 100 + 1) * 3) sdiv 4 = ((Y div 100 + 1) * 3) div 4"
    using n(1) by (simp only: sdiv_pos_divisor) simp
  have c: "(M * 4 + 23) sdiv 10 = (M * 4 + 23) div 10"
    using n(2) by (simp only: sdiv_pos_divisor) simp
  have nz: "\<not> (Y = 0 \<and> M = 0)" using assms by simp
  have m: "\<not> M \<le> 2" using assms by simp
  show ?thesis
    unfolding DayNumber_def if_not_P [OF nz] Let_def if_not_P [OF m] a b c by simp
qed

lemma daynrOf_DayNumber:
  assumes "0 \<le> y" "y \<le> 1000000000000000" "0 \<le> m" "m \<le> 1000000000000000"
    "0 \<le> d" "d \<le> 1000000000000000"
  shows "daynrOf (y, m, d) = DayNumber y m d"
proof -
  have s: "sint (word_of_int y :: 64 word) = y" "sint (word_of_int m :: 64 word) = m"
    "sint (word_of_int d :: 64 word) = d"
    using assms by (simp_all add: sint_word_of_int_id)
  show ?thesis
    using calcDaynr_sint [of "word_of_int y" "word_of_int m" "word_of_int d"] assms
    by (simp add: daynrOf_def s)
qed

lemma mysqlDaysIn_feb:
  assumes "0 \<le> y" "y \<le> 1000000000000000"
  shows "mysqlDaysIn 2 y =
    (if y mod 4 = 0 \<and> (y mod 100 \<noteq> 0 \<or> (y mod 400 = 0 \<and> y \<noteq> 0)) then 29 else 28)"
proof -
  have s: "sint (word_of_int y :: 64 word) = y"
    using assms by (simp add: sint_word_of_int_id)
  have "0 \<le> sint (word_of_int y :: 64 word)" using assms s by simp
  from calcDaysInYear_nonneg [OF this] show ?thesis
    by (simp add: mysqlDaysIn_def s)
qed

lemma mysqlDaysIn_gregorian:
  assumes "1 \<le> y" "y \<le> 1000000000000000"
  shows "mysqlDaysIn m y = daysIn m y"
proof (cases "m = 2")
  case True
  have "0 \<le> y" using assms by simp
  from mysqlDaysIn_feb [OF this assms(2)] assms(1) True show ?thesis
    by (simp add: daysIn_def isLeap_def)
next
  case False
  then show ?thesis by (simp add: mysqlDaysIn_def daysIn_def)
qed

lemma DayNumber_next_in_month:
  assumes "1 \<le> m"
  shows "DayNumber y m (d + 1) = DayNumber y m d + 1"
  using assms by (simp add: DayNumber_def Let_def)

lemma DayNumber_feb_to_mar:
  assumes "0 \<le> y" "y \<le> 1000000000000000"
  shows "DayNumber y 3 1 = DayNumber y 2 (mysqlDaysIn 2 y) + 1"
proof (cases "y = 0")
  case True
  have "mysqlDaysIn 2 0 = 28" using mysqlDaysIn_feb [of 0] by simp
  moreover have "DayNumber 0 2 28 = 59" using DayNumber_jan_feb_year0 [of 2 28] by simp
  moreover have "DayNumber 0 3 1 = 60" using DayNumber_mar_dec [of 0 3 1] by simp
  ultimately show ?thesis using True by simp
next
  case False
  with assms have y1: "1 \<le> y" by simp
  define L1 where "L1 = y div 4 - ((y div 100 + 1) * 3) div 4"
  define L0 where "L0 = (y - 1) div 4 - (((y - 1) div 100 + 1) * 3) div 4"
  define leap where "leap = (y mod 4 = 0 \<and> (y mod 100 \<noteq> 0 \<or> y mod 400 = 0))"
  have l: "L1 - L0 = (if leap then 1 else 0)"
    unfolding L1_def L0_def leap_def by (rule leap_step)
  have "(y mod 400 = 0 \<and> y \<noteq> 0) = (y mod 400 = 0)" using False by blast
  then have f: "mysqlDaysIn 2 y = (if leap then 29 else 28)"
    unfolding leap_def by (simp only: mysqlDaysIn_feb [OF assms])
  have "DayNumber y 3 1 = 365 * y + 31 * (3 - 1) + 1 - (3 * 4 + 23) div 10 + L1"
    unfolding L1_def using assms(1) by (rule DayNumber_mar_dec) simp
  then have a: "DayNumber y 3 1 = 365 * y + 60 + L1" by simp
  have "DayNumber y 2 (mysqlDaysIn 2 y) = 365 * y + 31 * (2 - 1) + mysqlDaysIn 2 y + L0"
    unfolding L0_def using y1 by (rule DayNumber_jan_feb) simp_all
  then have b: "DayNumber y 2 (mysqlDaysIn 2 y) = 365 * y + 31 + mysqlDaysIn 2 y + L0" by simp
  show ?thesis
  proof (cases leap)
    case True
    with l f have "L1 = L0 + 1" "mysqlDaysIn 2 y = 29" by simp_all
    with a b show ?thesis by simp
  next
    case False
    with l f have "L1 = L0" "mysqlDaysIn 2 y = 28" by simp_all
    with a b show ?thesis by simp
  qed
qed

lemma DayNumber_jan_to_feb:
  assumes "0 \<le> y"
  shows "DayNumber y 2 1 = DayNumber y 1 31 + 1"
proof (cases "y = 0")
  case True
  then show ?thesis
    using DayNumber_jan_feb_year0 [of 2 1] DayNumber_jan_feb_year0 [of 1 31] by simp
next
  case False
  with assms have "1 \<le> y" by simp
  then show ?thesis
    using DayNumber_jan_feb [of y 2 1] DayNumber_jan_feb [of y 1 31] by simp
qed

lemma DayNumber_dec_to_jan:
  assumes "0 \<le> y"
  shows "DayNumber (y + 1) 1 1 = DayNumber y 12 31 + 1"
  using DayNumber_jan_feb [of "y + 1" 1 1] DayNumber_mar_dec [of y 12 31] assms by simp

lemma DayNumber_month_end:
  assumes "0 \<le> y" "3 \<le> m" "m \<le> 11"
  shows "DayNumber y (m + 1) 1 = DayNumber y m (mysqlDaysIn m y) + 1"
proof -
  from assms(2,3) consider "m = 3" | "m = 4" | "m = 5" | "m = 6" | "m = 7" | "m = 8"
    | "m = 9" | "m = 10" | "m = 11" by linarith
  then show ?thesis
  proof cases
    case 1 then show ?thesis
      using DayNumber_mar_dec [of y 4 1] DayNumber_mar_dec [of y 3 31] assms(1)
      by (simp add: mysqlDaysIn_def)
  next
    case 2 then show ?thesis
      using DayNumber_mar_dec [of y 5 1] DayNumber_mar_dec [of y 4 30] assms(1)
      by (simp add: mysqlDaysIn_def)
  next
    case 3 then show ?thesis
      using DayNumber_mar_dec [of y 6 1] DayNumber_mar_dec [of y 5 31] assms(1)
      by (simp add: mysqlDaysIn_def)
  next
    case 4 then show ?thesis
      using DayNumber_mar_dec [of y 7 1] DayNumber_mar_dec [of y 6 30] assms(1)
      by (simp add: mysqlDaysIn_def)
  next
    case 5 then show ?thesis
      using DayNumber_mar_dec [of y 8 1] DayNumber_mar_dec [of y 7 31] assms(1)
      by (simp add: mysqlDaysIn_def)
  next
    case 6 then show ?thesis
      using DayNumber_mar_dec [of y 9 1] DayNumber_mar_dec [of y 8 31] assms(1)
      by (simp add: mysqlDaysIn_def)
  next
    case 7 then show ?thesis
      using DayNumber_mar_dec [of y 10 1] DayNumber_mar_dec [of y 9 30] assms(1)
      by (simp add: mysqlDaysIn_def)
  next
    case 8 then show ?thesis
      using DayNumber_mar_dec [of y 11 1] DayNumber_mar_dec [of y 10 31] assms(1)
      by (simp add: mysqlDaysIn_def)
  next
    case 9 then show ?thesis
      using DayNumber_mar_dec [of y 12 1] DayNumber_mar_dec [of y 11 30] assms(1)
      by (simp add: mysqlDaysIn_def)
  qed
qed

lemma mysqlDaysIn_range: "28 \<le> mysqlDaysIn m y \<and> mysqlDaysIn m y \<le> 31"
  by (simp add: mysqlDaysIn_def)

lemma DayNumber_next_date:
  assumes y: "0 \<le> y" "y \<le> 65535" and m: "1 \<le> m" "m \<le> 12"
    and d: "1 \<le> d" "d \<le> mysqlDaysIn m y"
    and n: "nextDate mysqlDaysIn y m d = (y', m', d')"
  shows "DayNumber y' m' d' = DayNumber y m d + 1"
proof (cases "d < mysqlDaysIn m y")
  case True
  with n have "y' = y" "m' = m" "d' = d + 1" by (simp_all add: nextDate_def)
  then show ?thesis using DayNumber_next_in_month [OF m(1)] by simp
next
  case False
  with d have de: "d = mysqlDaysIn m y" by simp
  show ?thesis
  proof (cases "m < 12")
    case True
    with n False have e: "y' = y" "m' = m + 1" "d' = 1" by (simp_all add: nextDate_def)
    from m True consider "m = 1" | "m = 2" | "3 \<le> m \<and> m \<le> 11" by linarith
    then show ?thesis
    proof cases
      case 1
      then have "d = 31" using de by (simp add: mysqlDaysIn_def)
      with 1 e DayNumber_jan_to_feb [OF y(1)] show ?thesis by simp
    next
      case 2
      have "y \<le> 1000000000000000" using y(2) by simp
      from DayNumber_feb_to_mar [OF y(1) this] 2 e de show ?thesis by simp
    next
      case 3
      then have "3 \<le> m" "m \<le> 11" by simp_all
      from DayNumber_month_end [OF y(1) this] e de show ?thesis by simp
    qed
  next
    case False
    with m have m12: "m = 12" by simp
    with n \<open>\<not> d < mysqlDaysIn m y\<close> have e: "y' = y + 1" "m' = 1" "d' = 1"
      by (simp_all add: nextDate_def)
    have "d = 31" using de m12 by (simp add: mysqlDaysIn_def)
    with m12 e DayNumber_dec_to_jan [OF y(1)] show ?thesis by simp
  qed
qed

text \<open>
  Claim C4, as amended. For every date with year 0..65535, month 1..12 and a day that the
  month has under the source's own leap rule (\<open>mysqlDaysIn\<close>: year 0 is a common year, and
  from year 1 on the rule is the proleptic Gregorian one), \<open>calcDaynr\<close> of the next calendar
  day is \<open>calcDaynr\<close> of the day plus 1, so it is strictly increasing; and
  \<open>calcDaynr(y,m,d) - calcDaynr(y,m,d-1) = 1\<close> whenever \<open>d - 1\<close> is still a day of the month.
\<close>

theorem calcDaynr_next_day:
  assumes y: "0 \<le> y" "y \<le> 65535" and m: "1 \<le> m" "m \<le> 12"
    and d: "1 \<le> d" "d \<le> mysqlDaysIn m y"
  shows "daynrOf (nextDate mysqlDaysIn y m d) = daynrOf (y, m, d) + 1 \<and>
         (1 < d \<longrightarrow> daynrOf (y, m, d) - daynrOf (y, m, d - 1) = 1) \<and>
         (1 \<le> y \<longrightarrow> mysqlDaysIn m y = daysIn m y)"
proof (intro conjI impI)
  have d31: "d \<le> 31" using d(2) mysqlDaysIn_range [of m y] by linarith
  have cur: "daynrOf (y, m, d) = DayNumber y m d"
    using y m d(1) d31 by (intro daynrOf_DayNumber) simp_all
  obtain y' m' d' where n: "nextDate mysqlDaysIn y m d = (y', m', d')"
    using prod_cases3 by blast
  have b: "0 \<le> y'" "y' \<le> 65536" "0 \<le> m'" "m' \<le> 12" "0 \<le> d'" "d' \<le> 32"
    using n y m d(1) d31 by (auto simp: nextDate_def split: if_splits)
  have nxt: "daynrOf (y', m', d') = DayNumber y' m' d'"
    using b by (intro daynrOf_DayNumber) simp_all
  show "daynrOf (nextDate mysqlDaysIn y m d) = daynrOf (y, m, d) + 1"
    using DayNumber_next_date [OF y m d n] by (simp only: n nxt cur)
  show "daynrOf (y, m, d) - daynrOf (y, m, d - 1) = 1" if "1 < d"
  proof -
    have prev: "daynrOf (y, m, d - 1) = DayNumber y m (d - 1)"
      using y m d31 that by (intro daynrOf_DayNumber) simp_all
    have "DayNumber y m (d - 1 + 1) = DayNumber y m (d - 1) + 1"
      using m(1) by (rule DayNumber_next_in_month)
    then show ?thesis by (simp add: cur prev)
  qed
  show "mysqlDaysIn m y = daysIn m y" if "1 \<le> y"
    using that y(2) by (intro mysqlDaysIn_gregorian) simp_all
qed

theorem calcDaynr_next_day_witness:
  "nextDate mysqlDaysIn 2016 2 29 = (2016, 3, 1) \<and>
   daynrOf (nextDate mysqlDaysIn 2016 2 29) = daynrOf (2016, 2, 29) + 1 \<and>
   daynrOf (2016, 2, 29) - daynrOf (2016, 2, 28) = 1 \<and>
   mysqlDaysIn 2 2016 = daysIn 2 2016"
proof -
  have f: "mysqlDaysIn 2 2016 = 29" by code_simp
  have n: "nextDate mysqlDaysIn 2016 2 29 = (2016, 3, 1)"
    by (simp add: nextDate_def f)
  have "(29::int) \<le> mysqlDaysIn 2 2016" by (simp add: f)
  from calcDaynr_next_day [of 2016 2 29, OF _ _ _ _ _ this] n show ?thesis by simp
qed

text \<open>
  Claim C4, as stated, fails at one date. In the proleptic Gregorian calendar year 0 is a
  leap year: February of year 0 has 29 days, the day after 0000-02-29 is 0000-03-01, and
  \<open>GoTime\<close> on the reference host accepts 0000-02-29 as a real date. \<open>calcDaynr\<close> gives both
  days the number 60.
\<close>

theorem calcDaynr_year0_leap_day_counterexample:
  "daysIn 2 0 = 29 \<and> nextDate daysIn 0 2 29 = (0, 3, 1) \<and>
   daynrOf (0, 2, 29) = 60 \<and> daynrOf (0, 3, 1) = 60 \<and>
   snd (GoTime utc_host (newMysqlTime 0 2 29 0 0 0 0)) = None"
  by code_simp

section \<open>Year-relative week numbers start at 1\<close>






























end
